theory Spec2Isabelle
  imports Complex_Main "HOL-Library.Sublist"
begin

section \<open>Strings and errors\<close>

text \<open>
  A Python \<^verbatim>\<open>str\<close> is a sequence of Unicode code points, so a text is a list of
  natural numbers here; \<open>ustr\<close> embeds an ASCII literal.  Exceptions are values of
  \<open>pyerr\<close>, and a computation that may raise returns \<open>pyerr + 'a\<close>.
\<close>

type_synonym ustring = "nat list"

definition ustr :: "string \<Rightarrow> ustring" where
  "ustr s = map of_char s"

datatype pyerr = ValueError | AttributeError | TypeError | KeyError | IndexError
  | ZeroDivisionError | BackendError

text \<open>
  \<^verbatim>\<open>str.upper\<close> follows the case mappings of Unicode, which belong to the interpreter
  and not to this repository: it is the parameter \<open>str_upper\<close> of every function that
  compares labels.  \<open>ascii_upper\<close> is what \<^verbatim>\<open>str.upper\<close> does to a text of ASCII
  characters; it stands for \<^verbatim>\<open>str.upper\<close> only where a function is evaluated on such
  texts.
\<close>

definition ascii_upper_char :: "nat \<Rightarrow> nat" where
  "ascii_upper_char c = (if 97 \<le> c \<and> c \<le> 122 then c - 32 else c)"

definition ascii_upper :: "ustring \<Rightarrow> ustring" where
  "ascii_upper s = map ascii_upper_char s"

section \<open>Accuracy aggregator (utils/metrics.py)\<close>

text \<open>
  \<^verbatim>\<open>calculate_accuracy(predictions, answers)\<close>.  A prediction is a label or
  \<^verbatim>\<open>None\<close>.  A float is a double, and a rational number stands here for the double
  nearest to it.  The quotient of two integers \<^verbatim>\<open>correct / len(predictions)\<close> is the
  double nearest to the exact quotient, so it is given by the exact quotient.
\<close>

definition is_correct :: "(ustring \<Rightarrow> ustring) \<Rightarrow> ustring option \<times> ustring \<Rightarrow> bool" where
  "is_correct str_upper pa = (case pa of (pred, ans) \<Rightarrow>
     (case pred of None \<Rightarrow> False | Some p \<Rightarrow> str_upper p = str_upper ans))"

definition count_correct ::
  "(ustring \<Rightarrow> ustring) \<Rightarrow> ustring option list \<Rightarrow> ustring list \<Rightarrow> nat" where
  "count_correct str_upper predictions answers =
     fold (\<lambda>pa correct. if is_correct str_upper pa then correct + 1 else correct)
       (zip predictions answers) 0"

definition calculate_accuracy ::
  "(ustring \<Rightarrow> ustring) \<Rightarrow> ustring option list \<Rightarrow> ustring list \<Rightarrow> pyerr + rat" where
  "calculate_accuracy str_upper predictions answers =
     (if length predictions \<noteq> length answers then Inl ValueError
      else let correct = count_correct str_upper predictions answers in
        Inr (if length predictions > 0
             then of_nat correct / of_nat (length predictions) else 0))"

section \<open>Samples and result records\<close>

text \<open>
  A sample is a dictionary with a fixed set of keys, hence a record.  The keys
  \<^verbatim>\<open>response\<close> and \<^verbatim>\<open>prediction\<close> are missing in a sample as loaded from the
  dataset (\<open>None\<close> for \<open>response\<close>) and are set by the evaluation loop; a prediction is
  a label or \<^verbatim>\<open>None\<close>.  Task 1 samples carry \<^verbatim>\<open>field\<close> and \<^verbatim>\<open>sub_field\<close>.
\<close>

record sample =
  question :: ustring
  answer :: ustring
  response :: "ustring option"
  prediction :: "ustring option"

record task1_sample = sample +
  field :: ustring
  sub_field :: ustring

section \<open>Hierarchical accuracy (tasks/task1\_evaluator.py)\<close>

text \<open>
  The containers that \<^verbatim>\<open>calculate_field_accuracy\<close> builds are Python values: lists of
  answers, lists of predictions, and dictionaries from strings to such values.  A
  dictionary keeps insertion order and an assignment to an existing key keeps its
  place, so it is an association list updated in place.
\<close>

datatype pv = AnsList "ustring list" | PredList "ustring option list"
  | Dict "(ustring \<times> pv) list"

definition bind_err :: "'e + 'a \<Rightarrow> ('a \<Rightarrow> 'e + 'b) \<Rightarrow> 'e + 'b" where
  "bind_err m f = (case m of Inl e \<Rightarrow> Inl e | Inr x \<Rightarrow> f x)"

fun dict_update :: "'k \<Rightarrow> 'v \<Rightarrow> ('k \<times> 'v) list \<Rightarrow> ('k \<times> 'v) list" where
  "dict_update k v [] = [(k, v)]"
| "dict_update k v (p # ps) = (if fst p = k then (k, v) # ps else p # dict_update k v ps)"

text \<open>\<^verbatim>\<open>d[k]\<close>: a missing key raises, and so does a string index into a list.\<close>

fun getitem :: "pv \<Rightarrow> ustring \<Rightarrow> pyerr + pv" where
  "getitem (Dict d) k = (case map_of d k of None \<Rightarrow> Inl KeyError | Some v \<Rightarrow> Inr v)"
| "getitem (AnsList xs) k = Inl TypeError"
| "getitem (PredList xs) k = Inl TypeError"

text \<open>\<^verbatim>\<open>d[k] = v\<close>.\<close>

fun setitem :: "pv \<Rightarrow> ustring \<Rightarrow> pv \<Rightarrow> pyerr + pv" where
  "setitem (Dict d) k v = Inr (Dict (dict_update k v d))"
| "setitem (AnsList xs) k v = Inl TypeError"
| "setitem (PredList xs) k v = Inl TypeError"

text \<open>\<^verbatim>\<open>k in v\<close>: key membership in a dictionary, element membership in a list.\<close>

fun contains :: "pv \<Rightarrow> ustring \<Rightarrow> bool" where
  "contains (Dict d) k = (k \<in> set (map fst d))"
| "contains (AnsList xs) k = (k \<in> set xs)"
| "contains (PredList xs) k = (Some k \<in> set xs)"

text \<open>
  \<^verbatim>\<open>v.append(x)\<close>: a dictionary has no such method.  An answer is only ever appended
  to what is stored under \<^verbatim>\<open>"answers"\<close> and a prediction to what is stored under
  \<^verbatim>\<open>"predictions"\<close>, which is a list of that kind or a dictionary; the remaining
  case of each function is not reached.
\<close>

fun append_answer :: "pv \<Rightarrow> ustring \<Rightarrow> pyerr + pv" where
  "append_answer (AnsList xs) a = Inr (AnsList (xs @ [a]))"
| "append_answer (Dict d) a = Inl AttributeError"
| "append_answer (PredList xs) a = Inl TypeError"

fun append_prediction :: "pv \<Rightarrow> ustring option \<Rightarrow> pyerr + pv" where
  "append_prediction (PredList xs) p = Inr (PredList (xs @ [p]))"
| "append_prediction (Dict d) p = Inl AttributeError"
| "append_prediction (AnsList xs) p = Inl TypeError"

text \<open>\<^verbatim>\<open>v.items()\<close>: a list has no such method.\<close>

fun items :: "pv \<Rightarrow> pyerr + (ustring \<times> pv) list" where
  "items (Dict d) = Inr d"
| "items (AnsList xs) = Inl AttributeError"
| "items (PredList xs) = Inl AttributeError"

text \<open>
  \<^verbatim>\<open>calculate_accuracy(c["predictions"], c["answers"])\<close> for a container \<open>c\<close>.  The two
  values are a prediction list and an answer list wherever the call is reached; the
  other shapes are answered with a \<^verbatim>\<open>TypeError\<close>.
\<close>

definition container_accuracy :: "(ustring \<Rightarrow> ustring) \<Rightarrow> pv \<Rightarrow> pyerr + rat" where
  "container_accuracy str_upper c =
     bind_err (getitem c (ustr ''predictions'')) (\<lambda>ps.
     bind_err (getitem c (ustr ''answers'')) (\<lambda>as.
       (case (ps, as) of
          (PredList predictions, AnsList answers) \<Rightarrow>
            calculate_accuracy str_upper predictions answers
        | _ \<Rightarrow> Inl TypeError)))"

definition new_field_entry :: pv where
  "new_field_entry = Dict [(ustr ''answers'', AnsList []), (ustr ''predictions'', PredList []),
     (ustr ''sub_field'', Dict [])]"

definition new_container :: pv where
  "new_container = Dict [(ustr ''answers'', AnsList []), (ustr ''predictions'', PredList [])]"

text \<open>
  \<^verbatim>\<open>d[k1][k2].append(x)\<close> and \<^verbatim>\<open>d[k1][k2][k3].append(x)\<close>, with the changed list
  written back along the path (the objects on the path are not shared with anything
  else).
\<close>

definition append_at2 ::
  "(pv \<Rightarrow> pyerr + pv) \<Rightarrow> pv \<Rightarrow> ustring \<Rightarrow> ustring \<Rightarrow> pyerr + pv" where
  "append_at2 app d k1 k2 =
     bind_err (getitem d k1) (\<lambda>e.
     bind_err (getitem e k2) (\<lambda>l.
     bind_err (app l) (\<lambda>l'.
     bind_err (setitem e k2 l') (\<lambda>e'.
       setitem d k1 e'))))"

definition append_at3 ::
  "(pv \<Rightarrow> pyerr + pv) \<Rightarrow> pv \<Rightarrow> ustring \<Rightarrow> ustring \<Rightarrow> ustring \<Rightarrow> pyerr + pv" where
  "append_at3 app d k1 k2 k3 =
     bind_err (getitem d k1) (\<lambda>e.
     bind_err (append_at2 app e k2 k3) (\<lambda>e'.
       setitem d k1 e'))"

text \<open>
  The body of the first loop of \<^verbatim>\<open>calculate_field_accuracy\<close>, on the pair of
  \<^verbatim>\<open>field_data\<close> and \<^verbatim>\<open>overall_data\<close> (the latter as its two lists).
\<close>

definition organize_item ::
  "'a task1_sample_scheme \<Rightarrow> pv \<times> ustring list \<times> ustring option list
     \<Rightarrow> pyerr + (pv \<times> ustring list \<times> ustring option list)" where
  "organize_item item st = (case st of (field_data, overall_answers, overall_predictions) \<Rightarrow>
     bind_err (if \<not> contains field_data (field item)
               then setitem field_data (field item) new_field_entry
               else Inr field_data) (\<lambda>fd1.
     bind_err (getitem fd1 (field item)) (\<lambda>entry.
     bind_err (getitem entry (ustr ''sub_field'')) (\<lambda>subs.
     bind_err (if \<not> contains subs (sub_field item)
               then bind_err (setitem entry (sub_field item) new_container)
                      (\<lambda>entry'. setitem fd1 (field item) entry')
               else Inr fd1) (\<lambda>fd2.
     bind_err (append_at3 (\<lambda>l. append_answer l (answer item)) fd2
                 (field item) (sub_field item) (ustr ''answers'')) (\<lambda>fd3.
     bind_err (append_at3 (\<lambda>l. append_prediction l (prediction item)) fd3
                 (field item) (sub_field item) (ustr ''predictions'')) (\<lambda>fd4.
     bind_err (append_at2 (\<lambda>l. append_answer l (answer item)) fd4
                 (field item) (ustr ''answers'')) (\<lambda>fd5.
     bind_err (append_at2 (\<lambda>l. append_prediction l (prediction item)) fd5
                 (field item) (ustr ''predictions'')) (\<lambda>fd6.
       Inr (fd6, overall_answers @ [answer item],
            overall_predictions @ [prediction item]))))))))))"

fun for_each :: "('a \<Rightarrow> 's \<Rightarrow> 'e + 's) \<Rightarrow> 'a list \<Rightarrow> 's \<Rightarrow> 'e + 's" where
  "for_each body [] st = Inr st"
| "for_each body (x # xs) st =
     (case body x st of Inl e \<Rightarrow> Inl e | Inr st' \<Rightarrow> for_each body xs st')"

text \<open>
  The accuracy scores: a dictionary whose values are a scalar (the top-level
  \<^verbatim>\<open>"overall"\<close>) or a dictionary of scalars (one per field).
\<close>

datatype score = Scalar rat | Nested "(ustring \<times> rat) list"

text \<open>\<^verbatim>\<open>accuracy_scores[field_name][sub_field_name] = x\<close>.\<close>

definition set_nested ::
  "ustring \<Rightarrow> ustring \<Rightarrow> rat \<Rightarrow> (ustring \<times> score) list
     \<Rightarrow> pyerr + (ustring \<times> score) list" where
  "set_nested field_name sub_field_name x accuracy_scores =
     (case map_of accuracy_scores field_name of
        None \<Rightarrow> Inl KeyError
      | Some (Scalar r) \<Rightarrow> Inl TypeError
      | Some (Nested d) \<Rightarrow>
          Inr (dict_update field_name (Nested (dict_update sub_field_name x d))
                 accuracy_scores))"

text \<open>The body of the second loop, for one item of \<^verbatim>\<open>field_data.items()\<close>.\<close>

definition score_field ::
  "(ustring \<Rightarrow> ustring) \<Rightarrow> ustring \<times> pv \<Rightarrow> (ustring \<times> score) list
     \<Rightarrow> pyerr + (ustring \<times> score) list" where
  "score_field str_upper fr accuracy_scores = (case fr of (field_name, field_results) \<Rightarrow>
     bind_err (container_accuracy str_upper field_results) (\<lambda>field_accuracy.
     bind_err (getitem field_results (ustr ''sub_field'')) (\<lambda>subs.
     bind_err (items subs) (\<lambda>sub_items.
       for_each (\<lambda>sr scores. case sr of (sub_field_name, sub_field_results) \<Rightarrow>
           bind_err (container_accuracy str_upper sub_field_results) (\<lambda>sub_field_accuracy.
             set_nested field_name sub_field_name sub_field_accuracy scores))
         sub_items
         (dict_update field_name (Nested [(ustr ''overall'', field_accuracy)])
            accuracy_scores)))))"

definition calculate_field_accuracy ::
  "(ustring \<Rightarrow> ustring) \<Rightarrow> 'a task1_sample_scheme list \<Rightarrow> pyerr + (ustring \<times> score) list" where
  "calculate_field_accuracy str_upper results =
     bind_err (for_each organize_item results (Dict [], [], [])) (\<lambda>(field_data, oa, op).
     bind_err (items field_data) (\<lambda>field_items.
     bind_err (for_each (score_field str_upper) field_items []) (\<lambda>accuracy_scores.
     bind_err (calculate_accuracy str_upper op oa) (\<lambda>overall_accuracy.
       Inr (dict_update (ustr ''overall'') (Scalar overall_accuracy) accuracy_scores)))))"

section \<open>Regular expressions: the fragment of Python's \<^verbatim>\<open>re\<close> that the extractors use\<close>

text \<open>
  A backtracking matcher explores the alternatives of a pattern in a fixed order and
  reports the first that succeeds.  \<open>matches r (g, s)\<close> lists every way in which \<open>r\<close>
  matches a prefix of \<open>s\<close>, in that order, each as the groups captured so far and the
  text that remains; Python's match is the head of the list.  A greedy repetition
  lists longer matches first, a lazy one shorter matches first.  An iteration of a
  repetition has to consume a character (the repeated patterns used here always do),
  so the length of the text bounds the number of iterations.
\<close>

datatype regex =
    Eps
  | Chr nat
  | Cls "nat \<Rightarrow> bool"
  | Seq regex regex
  | Alt regex regex
  | Star regex
  | Lazy regex
  | Opt regex
  | Group nat regex
  | Ahead regex
  | Eol

type_synonym captures = "nat \<Rightarrow> ustring option"

type_synonym mstate = "captures \<times> ustring"

fun star_greedy :: "nat \<Rightarrow> (mstate \<Rightarrow> mstate list) \<Rightarrow> mstate \<Rightarrow> mstate list" where
  "star_greedy 0 step x = [x]"
| "star_greedy (Suc n) step x =
     concat (map (\<lambda>y. if length (snd y) < length (snd x) then star_greedy n step y else [])
       (step x)) @ [x]"

fun star_lazy :: "nat \<Rightarrow> (mstate \<Rightarrow> mstate list) \<Rightarrow> mstate \<Rightarrow> mstate list" where
  "star_lazy 0 step x = [x]"
| "star_lazy (Suc n) step x =
     x # concat (map (\<lambda>y. if length (snd y) < length (snd x) then star_lazy n step y else [])
       (step x))"

primrec matches :: "regex \<Rightarrow> mstate \<Rightarrow> mstate list" where
  "matches Eps x = [x]"
| "matches (Chr c) x =
     (case snd x of [] \<Rightarrow> [] | d # s \<Rightarrow> if d = c then [(fst x, s)] else [])"
| "matches (Cls P) x =
     (case snd x of [] \<Rightarrow> [] | d # s \<Rightarrow> if P d then [(fst x, s)] else [])"
| "matches (Seq a b) x = concat (map (matches b) (matches a x))"
| "matches (Alt a b) x = matches a x @ matches b x"
| "matches (Star r) x = star_greedy (length (snd x)) (matches r) x"
| "matches (Lazy r) x = star_lazy (length (snd x)) (matches r) x"
| "matches (Opt r) x = matches r x @ [x]"
| "matches (Group n r) x =
     map (\<lambda>y. ((fst y)(n := Some (take (length (snd x) - length (snd y)) (snd x))), snd y))
       (matches r x)"
| "matches (Ahead r) x = (case matches r x of [] \<Rightarrow> [] | y # _ \<Rightarrow> [(fst y, snd x)])"
| "matches Eol x = (if snd x = [] \<or> snd x = [10] then [x] else [])"

definition lit :: "ustring \<Rightarrow> regex" where
  "lit s = foldr (\<lambda>c r. Seq (Chr c) r) s Eps"

definition no_captures :: captures where
  "no_captures = (\<lambda>n. None)"

text \<open>\<^verbatim>\<open>m.group(n)\<close> as \<^verbatim>\<open>findall\<close> reports it: a group that took no part is empty.\<close>

definition group :: "captures \<Rightarrow> nat \<Rightarrow> ustring" where
  "group g n = (case g n of None \<Rightarrow> [] | Some s \<Rightarrow> s)"

text \<open>
  \<^verbatim>\<open>re.findall\<close>: the matches from left to right, none overlapping, each as its groups
  and its text.  The scan resumes at the end of a match, and one character further on
  when nothing matches at a position (or when the match is empty, which the patterns
  used here never are).
\<close>

fun findall :: "regex \<Rightarrow> ustring \<Rightarrow> (captures \<times> ustring) list" where
  "findall r [] = (case matches r (no_captures, []) of [] \<Rightarrow> [] | y # _ \<Rightarrow> [(fst y, [])])"
| "findall r (c # s) =
     (case matches r (no_captures, c # s) of
        [] \<Rightarrow> findall r s
      | y # _ \<Rightarrow>
          (fst y, take (length (c # s) - length (snd y)) (c # s)) #
          (if length (snd y) < length (c # s) then findall r (snd y) else findall r s))"

text \<open>\<^verbatim>\<open>re.match\<close> (at the start of the text) and \<^verbatim>\<open>re.fullmatch\<close> (the whole text).\<close>

definition re_match :: "regex \<Rightarrow> ustring \<Rightarrow> captures option" where
  "re_match r s = (case matches r (no_captures, s) of [] \<Rightarrow> None | y # _ \<Rightarrow> Some (fst y))"

definition re_fullmatch :: "regex \<Rightarrow> ustring \<Rightarrow> captures option" where
  "re_fullmatch r s =
     (case filter (\<lambda>y. snd y = []) (matches r (no_captures, s)) of
        [] \<Rightarrow> None | y # _ \<Rightarrow> Some (fst y))"

text \<open>
  The character classes.  \<^verbatim>\<open>\s\<close> in a \<^verbatim>\<open>str\<close> pattern and \<^verbatim>\<open>str.strip()\<close> use the
  same set of white space code points; \<^verbatim>\<open>.\<close> is every code point but the line feed.
\<close>

definition is_space :: "nat \<Rightarrow> bool" where
  "is_space c = ((9 \<le> c \<and> c \<le> 13) \<or> (28 \<le> c \<and> c \<le> 32) \<or> c = 133 \<or> c = 160
     \<or> c = 5760 \<or> (8192 \<le> c \<and> c \<le> 8202) \<or> c = 8232 \<or> c = 8233 \<or> c = 8239
     \<or> c = 8287 \<or> c = 12288)"

definition any_char :: "nat \<Rightarrow> bool" where
  "any_char c = (c \<noteq> 10)"

definition is_option_letter :: "nat \<Rightarrow> bool" where
  "is_option_letter c = (65 \<le> c \<and> c \<le> 68)"

definition dot_or_space :: "nat \<Rightarrow> bool" where
  "dot_or_space c = (c = 46 \<or> is_space c)"

definition not_rbrace :: "nat \<Rightarrow> bool" where
  "not_rbrace c = (c \<noteq> 125)"

definition strip :: "ustring \<Rightarrow> ustring" where
  "strip s = rev (dropWhile is_space (rev (dropWhile is_space s)))"

section \<open>Answer extractor (utils/metrics.py)\<close>

text \<open>
  The pattern of \<^verbatim>\<open>extract_last_boxed_answer\<close>,
  \<^verbatim>\<open>\\boxed\{(\s*\\text\{([^}]*)\}|\s*\{?([A-D][\.\s].*?\}?)\}?|\s*([A-D])\s*)\}\<close>;
  123 and 125 are the braces and 92 is the backslash.
\<close>

definition boxed_text_alt :: regex where
  "boxed_text_alt =
     Seq (Star (Cls is_space)) (Seq (lit (92 # ustr ''text'' @ [123]))
       (Seq (Group 2 (Star (Cls not_rbrace))) (Chr 125)))"

definition boxed_dotted_alt :: regex where
  "boxed_dotted_alt =
     Seq (Star (Cls is_space)) (Seq (Opt (Chr 123))
       (Seq (Group 3 (Seq (Cls is_option_letter) (Seq (Cls dot_or_space)
               (Seq (Lazy (Cls any_char)) (Opt (Chr 125))))))
          (Opt (Chr 125))))"

definition boxed_letter_alt :: regex where
  "boxed_letter_alt =
     Seq (Star (Cls is_space)) (Seq (Group 4 (Cls is_option_letter)) (Star (Cls is_space)))"

definition boxed_pattern :: regex where
  "boxed_pattern =
     Seq (lit (92 # ustr ''boxed'' @ [123]))
       (Seq (Group 1 (Alt boxed_text_alt (Alt boxed_dotted_alt boxed_letter_alt)))
          (Chr 125))"

text \<open>
  \<^verbatim>\<open>[A-D]\<close> for \<^verbatim>\<open>re.fullmatch\<close> and \<^verbatim>\<open>^([A-D])[\.\s].*\<close> for \<^verbatim>\<open>re.match\<close>, which
  tries the start of the text only, so that \<^verbatim>\<open>^\<close> always holds there.
\<close>

definition single_letter_pattern :: regex where
  "single_letter_pattern = Cls is_option_letter"

definition dotted_letter_pattern :: regex where
  "dotted_letter_pattern =
     Seq (Group 1 (Cls is_option_letter)) (Seq (Cls dot_or_space) (Star (Cls any_char)))"

text \<open>The body of the loop over \<^verbatim>\<open>boxed_matches\<close>; a match is the tuple of its four groups.\<close>

definition collect_option ::
  "ustring \<times> ustring \<times> ustring \<times> ustring \<Rightarrow> ustring list \<Rightarrow> ustring list" where
  "collect_option match extracted_options = (case match of (g1, g2, g3, g4) \<Rightarrow>
     (if g2 \<noteq> [] then
        (if strip g2 \<noteq> [] then extracted_options @ [strip g2] else extracted_options)
      else if g3 \<noteq> [] then
        (if strip g3 \<noteq> [] then extracted_options @ [strip g3] else extracted_options)
      else if g4 \<noteq> [] then
        (if strip g4 \<noteq> [] then extracted_options @ [strip g4] else extracted_options)
      else extracted_options))"

text \<open>\<^verbatim>\<open>xs[-1]\<close>, which raises on the empty list.\<close>

definition last_item :: "'a list \<Rightarrow> pyerr + 'a" where
  "last_item xs = (if xs = [] then Inl IndexError else Inr (last xs))"

definition extract_last_boxed_answer :: "ustring \<Rightarrow> pyerr + ustring option" where
  "extract_last_boxed_answer text =
     (let boxed_matches =
            map (\<lambda>m. (group (fst m) 1, group (fst m) 2, group (fst m) 3, group (fst m) 4))
              (findall boxed_pattern text);
          extracted_options = fold collect_option boxed_matches []
      in if extracted_options = [] then Inr None
         else bind_err (last_item extracted_options) (\<lambda>last_boxed.
           if re_fullmatch single_letter_pattern last_boxed \<noteq> None then Inr (Some last_boxed)
           else (case re_match dotted_letter_pattern last_boxed of
                   Some g \<Rightarrow> Inr (Some (group g 1))
                 | None \<Rightarrow> Inr None)))"

section \<open>Knowledge extractor (utils/metrics.py)\<close>

text \<open>
  The values of \<^verbatim>\<open>json.loads\<close>.  The decoder itself belongs to the Python library, not
  to this program: the extractor takes it as the parameter \<open>loads\<close>, which raises
  or returns a value.
\<close>

datatype json = JNull | JBool bool | JNum rat | JStr ustring | JArr "json list"
  | JObj "(ustring \<times> json) list"

text \<open>\<^verbatim>\<open>knowledge_data.get("knowledge", "")\<close>: only a dictionary has the method.\<close>

definition get_knowledge :: "json \<Rightarrow> pyerr + json" where
  "get_knowledge knowledge_data =
     (case knowledge_data of
        JObj kv \<Rightarrow> (case map_of kv (ustr ''knowledge'') of None \<Rightarrow> Inr (JStr []) | Some v \<Rightarrow> Inr v)
      | _ \<Rightarrow> Inl AttributeError)"

text \<open>
  The string methods: \<^verbatim>\<open>lstrip(chars)\<close> and \<^verbatim>\<open>rstrip(chars)\<close> remove every leading
  (trailing) character that is one of \<open>chars\<close>; \<^verbatim>\<open>split(sep)\<close> cuts at the
  occurrences of a non-empty \<open>sep\<close> found from left to right.
\<close>

definition lstrip_chars :: "ustring \<Rightarrow> ustring \<Rightarrow> ustring" where
  "lstrip_chars chars s = dropWhile (\<lambda>c. c \<in> set chars) s"

definition rstrip_chars :: "ustring \<Rightarrow> ustring \<Rightarrow> ustring" where
  "rstrip_chars chars s = rev (dropWhile (\<lambda>c. c \<in> set chars) (rev s))"

function split_from :: "ustring \<Rightarrow> ustring \<Rightarrow> ustring \<Rightarrow> ustring list" where
  "split_from sep piece [] = [piece]"
| "split_from sep piece (c # s) =
     (if sep \<noteq> [] \<and> prefix sep (c # s)
      then piece # split_from sep [] (drop (length sep) (c # s))
      else split_from sep (piece @ [c]) s)"
  by pat_completeness auto
termination
  by (relation "measure (\<lambda>(sep, piece, s). length s)") auto

definition split :: "ustring \<Rightarrow> ustring \<Rightarrow> ustring list" where
  "split sep s = split_from sep [] s"

definition fence_json :: ustring where
  "fence_json = ustr ''```json''"

definition fence :: ustring where
  "fence = ustr ''```''"

text \<open>The literal \<^verbatim>\<open>"knowledge":\<close>, with its two double quotes (34) and the colon.\<close>

definition knowledge_key :: ustring where
  "knowledge_key = 34 # ustr ''knowledge'' @ [34] @ ustr '':''"

definition clean_fences :: "ustring \<Rightarrow> ustring" where
  "clean_fences text =
     (let cleaned_text = (if prefix fence_json text then lstrip_chars fence_json text else text)
      in if suffix fence cleaned_text then rstrip_chars fence cleaned_text else cleaned_text)"

text \<open>The \<^verbatim>\<open>except\<close> branch of \<^verbatim>\<open>extract_knowledge_from_text\<close>.\<close>

definition fallback_knowledge :: "ustring \<Rightarrow> ustring" where
  "fallback_knowledge cleaned_text =
     (let knowledge = (if sublist knowledge_key cleaned_text
                       then strip (last (split knowledge_key cleaned_text)) else []);
          knowledge = (if prefix [34] knowledge then lstrip_chars [34] knowledge else knowledge)
      in if suffix [34] knowledge then rstrip_chars [34] knowledge else knowledge)"

text \<open>
  \<^verbatim>\<open>extract_knowledge_from_text\<close>: whatever the \<^verbatim>\<open>try\<close> block raises is caught
  (\<^verbatim>\<open>except Exception\<close>) and answered with the fallback.
\<close>

definition extract_knowledge_from_text ::
  "(ustring \<Rightarrow> pyerr + json) \<Rightarrow> ustring \<Rightarrow> pyerr + json" where
  "extract_knowledge_from_text loads text =
     (let cleaned_text = clean_fences text in
      case bind_err (loads cleaned_text) get_knowledge of
        Inr knowledge \<Rightarrow> Inr knowledge
      | Inl e \<Rightarrow> Inr (JStr (fallback_knowledge cleaned_text)))"

text \<open>
  The three patterns of \<^verbatim>\<open>extract_last_knowledge_object\<close>.  The first two are used
  with \<^verbatim>\<open>re.DOTALL\<close>, where \<^verbatim>\<open>.\<close> is every code point:
  \<^verbatim>\<open>```json\s*({.*?"knowledge":.*?})\s*```\<close>, \<^verbatim>\<open>{\s*"knowledge":.*?}\<close> and
  \<^verbatim>\<open>{"knowledge":.*?}(?=(?:[^"]*"[^"]*")*[^"]*$)\<close>.
\<close>

definition every_char :: "nat \<Rightarrow> bool" where
  "every_char c = True"

definition not_quote :: "nat \<Rightarrow> bool" where
  "not_quote c = (c \<noteq> 34)"

definition pattern_codeblock :: regex where
  "pattern_codeblock =
     Seq (lit fence_json) (Seq (Star (Cls is_space))
       (Seq (Group 1 (Seq (Chr 123) (Seq (Lazy (Cls every_char))
               (Seq (lit knowledge_key) (Seq (Lazy (Cls every_char)) (Chr 125))))))
          (Seq (Star (Cls is_space)) (lit fence))))"

definition pattern_multiline :: regex where
  "pattern_multiline =
     Seq (Chr 123) (Seq (Star (Cls is_space))
       (Seq (lit knowledge_key) (Seq (Lazy (Cls every_char)) (Chr 125))))"

definition pattern_inline :: regex where
  "pattern_inline =
     Seq (Chr 123) (Seq (lit knowledge_key) (Seq (Lazy (Cls any_char)) (Seq (Chr 125)
       (Ahead (Seq (Star (Seq (Star (Cls not_quote)) (Seq (Chr 34)
                       (Seq (Star (Cls not_quote)) (Chr 34)))))
                 (Seq (Star (Cls not_quote)) Eol))))))"

definition extract_last_knowledge_object ::
  "(ustring \<Rightarrow> pyerr + json) \<Rightarrow> ustring \<Rightarrow> pyerr + json" where
  "extract_last_knowledge_object loads text =
     (let codeblock_matches = map (\<lambda>m. group (fst m) 1) (findall pattern_codeblock text) in
      if codeblock_matches \<noteq> [] then
        bind_err (last_item codeblock_matches) (\<lambda>m.
          extract_knowledge_from_text loads (fence_json @ [10] @ m @ [10] @ fence))
      else
        let multiline_matches = map snd (findall pattern_multiline text) in
        if multiline_matches \<noteq> [] then
          bind_err (last_item multiline_matches) (extract_knowledge_from_text loads)
        else
          let inline_matches = map snd (findall pattern_inline text) in
          if inline_matches \<noteq> [] then
            bind_err (last_item inline_matches) (extract_knowledge_from_text loads)
          else Inr (JStr []))"

section \<open>Prompt builder (utils/prompts.py)\<close>

text \<open>
  \<^verbatim>\<open>build_task1_prompt(query, field)\<close> fills the field and the question into a fixed
  Chinese template, given here by its code points.
\<close>

definition task1_prompt_head :: ustring where
  "task1_prompt_head = [20197, 19979, 26159, 20851, 20110]"

definition task1_prompt_middle :: ustring where
  "task1_prompt_middle = [30340, 21333, 39033, 36873, 25321, 39064, 65292, 35831,
     36873, 20986, 27491, 30830, 31572, 26696, 24182, 23558, 36873, 39033, 22635,
     20889, 21040, 92, 98, 111, 120, 101, 100, 123, 125, 20013, 12290, 10, 10]"

definition build_task1_prompt :: "ustring \<Rightarrow> ustring \<Rightarrow> ustring" where
  "build_task1_prompt query fld = task1_prompt_head @ fld @ task1_prompt_middle @ query"

section \<open>Resumable evaluation loop (tasks/task1\_evaluator.py)\<close>

text \<open>
  The loop mutates the sample dictionaries in place and appends the very same objects
  to \<^verbatim>\<open>evaluation_results\<close>, so the objects live in a heap (a list, an address is an
  index) and \<^verbatim>\<open>evaluation_data\<close> and \<^verbatim>\<open>evaluation_results\<close> are lists of addresses.
  The output file holds values: \<^verbatim>\<open>append_to_jsonl\<close> writes the sample as it is at that
  moment.  The file is \<open>None\<close> while it does not exist.  The model backend is a state
  \<open>'m\<close> with the operation \<open>chat\<close>, which takes the prompt, the system prompt and
  \<^verbatim>\<open>max_new_tokens\<close>, returns the response or raises, and moves the backend to its
  next state (generation samples at random, so two calls with one prompt need not
  agree).  Storage errors are not modelled.
\<close>

type_synonym 'm chat_fun =
  "'m \<Rightarrow> ustring \<Rightarrow> ustring option \<Rightarrow> int \<Rightarrow> (pyerr + ustring) \<times> 'm"

record ('m, 's) eval_state =
  heap :: "'s list"
  evaluation_results :: "nat list"
  results_file :: "'s list option"
  model :: 'm

type_synonym 'm task1_state = "('m, task1_sample) eval_state"

definition load_results :: "'s list option \<Rightarrow> 's list" where
  "load_results file = (case file of None \<Rightarrow> [] | Some records \<Rightarrow> records)"

definition append_to_jsonl :: "'s \<Rightarrow> 's list option \<Rightarrow> 's list option" where
  "append_to_jsonl item file = Some (load_results file @ [item])"

text \<open>
  Lines 109 to 118: generation for the sample at address \<open>sample\<close>.  An exception
  leaves the loop together with the state reached.
\<close>

definition generate ::
  "'m chat_fun \<Rightarrow> int \<Rightarrow> nat \<Rightarrow> 'm task1_state
     \<Rightarrow> (pyerr \<times> 'm task1_state) + 'm task1_state" where
  "generate chat max_length sample st =
     (let prompt = build_task1_prompt (question (heap st ! sample)) (field (heap st ! sample))
      in case chat (model st) prompt None max_length of
        (Inl e, m) \<Rightarrow> Inl (e, st\<lparr>model := m\<rparr>)
      | (Inr model_response, m) \<Rightarrow>
          let heap1 = (heap st)[sample := (heap st ! sample)\<lparr>response := Some model_response\<rparr>]
          in (case extract_last_boxed_answer model_response of
                Inl e \<Rightarrow> Inl (e, st\<lparr>heap := heap1, model := m\<rparr>)
              | Inr p \<Rightarrow>
                  let heap2 = heap1[sample := (heap1 ! sample)\<lparr>prediction := p\<rparr>]
                  in Inr (st\<lparr>heap := heap2,
                             results_file := append_to_jsonl (heap2 ! sample) (results_file st),
                             evaluation_results := evaluation_results st @ [sample],
                             model := m\<rparr>)))"

text \<open>The body of the inner loop, lines 104 to 118.\<close>

definition process_sample ::
  "'m chat_fun \<Rightarrow> int \<Rightarrow> nat \<Rightarrow> nat \<Rightarrow> nat \<times> nat \<Rightarrow> 'm task1_state
     \<Rightarrow> (pyerr \<times> 'm task1_state) + 'm task1_state" where
  "process_sample chat max_length total_samples iteration is st =
     (case is of (sample_idx, sample) \<Rightarrow>
        let result_index = sample_idx + iteration * total_samples in
        if result_index < length (evaluation_results st) then Inr st
        else generate chat max_length sample st)"

text \<open>The two nested loops, lines 100 to 120, over the addresses \<open>evaluation_data\<close>.\<close>

definition evaluation_loop ::
  "'m chat_fun \<Rightarrow> int \<Rightarrow> nat list \<Rightarrow> int \<Rightarrow> 'm task1_state
     \<Rightarrow> (pyerr \<times> 'm task1_state) + 'm task1_state" where
  "evaluation_loop chat max_length evaluation_data test_time st =
     for_each (\<lambda>iteration.
         for_each (process_sample chat max_length (length evaluation_data) iteration)
           (enumerate 0 evaluation_data))
       [0..<nat test_time] st"

text \<open>
  \<^verbatim>\<open>run_evaluation_task1\<close>, on the output file as found, the samples of the dataset as
  loaded, and the backend.  The records of the file are loaded as fresh objects, then
  the samples of the dataset.  The result is the accuracy scores and the state
  reached, or the exception and the state reached.
\<close>

definition run_evaluation_task1 ::
  "(ustring \<Rightarrow> ustring) \<Rightarrow> 'm chat_fun \<Rightarrow> 'm \<Rightarrow> task1_sample list option
     \<Rightarrow> task1_sample list \<Rightarrow> int \<Rightarrow> int
     \<Rightarrow> (pyerr \<times> 'm task1_state) + ((ustring \<times> score) list \<times> 'm task1_state)" where
  "run_evaluation_task1 str_upper chat m file dataset test_time max_length =
     (let loaded = load_results file;
          evaluation_data = [length loaded..<length loaded + length dataset];
          st0 = \<lparr>heap = loaded @ dataset, evaluation_results = [0..<length loaded],
                  results_file = file, model = m\<rparr>
      in case evaluation_loop chat max_length evaluation_data test_time st0 of
           Inl (e, st) \<Rightarrow> Inl (e, st)
         | Inr st \<Rightarrow>
             (case calculate_field_accuracy str_upper
                     (map (\<lambda>r. heap st ! r) (evaluation_results st)) of
                Inl e \<Rightarrow> Inl (e, st)
              | Inr accuracy_scores \<Rightarrow> Inr (accuracy_scores, st)))"

text \<open>The output file that a run leaves behind, however it ends.\<close>

definition final_file ::
  "(pyerr \<times> 'm task1_state) + ((ustring \<times> score) list \<times> 'm task1_state)
     \<Rightarrow> task1_sample list option" where
  "final_file outcome =
     (case outcome of Inl (e, st) \<Rightarrow> results_file st | Inr (scores, st) \<Rightarrow> results_file st)"

section \<open>Two-stage pipeline (tasks/task3\_evaluator.py)\<close>

text \<open>
  Task 3 samples carry \<^verbatim>\<open>guideline\<close>, \<^verbatim>\<open>material\<close> and, once the teacher has
  answered, \<^verbatim>\<open>knowledge\<close>, which is whatever the knowledge extractor returned.
\<close>

record task3_sample = sample +
  guideline :: ustring
  material :: ustring
  knowledge :: json

definition teacher_system_prompt :: ustring where
  "teacher_system_prompt = [20320, 26159, 19968, 21517, 22269, 38469, 27721, 35821,
     25945, 24072, 12290]"

definition teacher_prompt_head :: ustring where
  "teacher_prompt_head = [38405, 35835, 20197, 19979, 26448, 26009, 65292, 20381,
     25454, 26448, 26009, 32467, 21512, 25945, 23398, 25552, 31034, 21521, 23398,
     29983, 20256, 25480, 30456, 20851, 30693, 35782, 65292, 20197, 123, 34, 107,
     110, 111, 119, 108, 101, 100, 103, 101, 34, 58, 32, 30693, 35782, 20869, 23481,
     125, 30340, 26684, 24335, 36755, 20986, 12290, 10, 10, 35, 32, 26448, 26009,
     65306, 10]"

definition teacher_prompt_middle :: ustring where
  "teacher_prompt_middle = [10, 10, 35, 32, 25945, 23398, 25552, 31034, 65306, 10]"

definition build_teacher_prompt :: "ustring \<Rightarrow> ustring \<Rightarrow> ustring \<times> ustring" where
  "build_teacher_prompt teaching_guide text =
     (teacher_system_prompt, teacher_prompt_head @ text @ teacher_prompt_middle @ teaching_guide)"

definition student_system_prompt :: ustring where
  "student_system_prompt = [20320, 26159, 19968, 21517, 27491, 22312, 23398, 20064,
     27721, 35821, 30693, 35782, 30340, 23398, 29983, 12290]"

definition guided_prompt_head :: ustring where
  "guided_prompt_head = [38405, 35835, 20197, 19979, 26448, 26009, 65292, 32467,
     21512, 25945, 24072, 20256, 25480, 30340, 30693, 35782, 22238, 31572, 38382,
     39064, 65292, 36873, 20986, 21807, 19968, 27491, 30830, 31572, 26696, 24182,
     23558, 36873, 39033, 22635, 20889, 21040, 92, 98, 111, 120, 101, 100, 123, 125,
     20013, 12290, 10, 10, 35, 32, 26448, 26009, 65306, 10]"

definition guided_prompt_knowledge :: ustring where
  "guided_prompt_knowledge = [10, 10, 35, 32, 25945, 24072, 20256, 25480, 30340,
     30693, 35782, 65306, 10]"

definition guided_prompt_question :: ustring where
  "guided_prompt_question = [10, 10, 35, 32, 38382, 39064, 65306, 10]"

definition build_guided_student_prompt ::
  "ustring \<Rightarrow> ustring \<Rightarrow> ustring \<Rightarrow> ustring \<times> ustring" where
  "build_guided_student_prompt query text knowledge_text =
     (student_system_prompt,
      guided_prompt_head @ text @ guided_prompt_knowledge @ knowledge_text
        @ guided_prompt_question @ query)"

subsection \<open>Stage A: \<^verbatim>\<open>generate_knowledge_for_task3\<close>\<close>

text \<open>
  Every sample of the dataset is visited once and is written to only just before it is
  appended, so the samples are values here.  The state is \<^verbatim>\<open>knowledge_results\<close>, the
  knowledge file and the teacher backend.
\<close>

record 'm knowledge_state =
  knowledge_results :: "task3_sample list"
  knowledge_file :: "task3_sample list option"
  teacher :: 'm

text \<open>The \<^verbatim>\<open>try\<close> block, lines 49 to 63.\<close>

definition teach ::
  "'m chat_fun \<Rightarrow> (ustring \<Rightarrow> pyerr + json) \<Rightarrow> int \<Rightarrow> task3_sample \<Rightarrow> 'm knowledge_state
     \<Rightarrow> (pyerr \<times> 'm knowledge_state) + 'm knowledge_state" where
  "teach chat loads max_length sample st =
     (case build_teacher_prompt (guideline sample) (material sample) of
        (system_prompt, user_prompt) \<Rightarrow>
          (case chat (teacher st) user_prompt (Some system_prompt) max_length of
             (Inl e, m) \<Rightarrow> Inl (e, st\<lparr>teacher := m\<rparr>)
           | (Inr model_response, m) \<Rightarrow>
               (case extract_last_knowledge_object loads model_response of
                  Inl e \<Rightarrow> Inl (e, st\<lparr>teacher := m\<rparr>)
                | Inr k \<Rightarrow>
                    let sample' = sample\<lparr>response := Some model_response, knowledge := k\<rparr>
                    in Inr (st\<lparr>knowledge_file := append_to_jsonl sample' (knowledge_file st),
                               knowledge_results := knowledge_results st @ [sample'],
                               teacher := m\<rparr>))))"

text \<open>
  The body of the loop, lines 44 to 68: \<^verbatim>\<open>except Exception\<close> logs the error and goes
  on with the next sample.
\<close>

definition process_knowledge_sample ::
  "'m chat_fun \<Rightarrow> (ustring \<Rightarrow> pyerr + json) \<Rightarrow> int \<Rightarrow> nat \<times> task3_sample
     \<Rightarrow> 'm knowledge_state \<Rightarrow> 'm knowledge_state" where
  "process_knowledge_sample chat loads max_length is st =
     (case is of (sample_idx, sample) \<Rightarrow>
        if sample_idx < length (knowledge_results st) then st
        else (case teach chat loads max_length sample st of
                Inl (e, st') \<Rightarrow> st'
              | Inr st' \<Rightarrow> st'))"

definition generate_knowledge_for_task3 ::
  "'m chat_fun \<Rightarrow> (ustring \<Rightarrow> pyerr + json) \<Rightarrow> 'm \<Rightarrow> task3_sample list option
     \<Rightarrow> task3_sample list \<Rightarrow> int \<Rightarrow> 'm knowledge_state" where
  "generate_knowledge_for_task3 chat loads m file evaluation_data max_length =
     (let st0 = \<lparr>knowledge_results = load_results file, knowledge_file = file, teacher = m\<rparr>;
          total_samples = length evaluation_data;
          samples_to_process = int total_samples - int (length (knowledge_results st0))
      in if samples_to_process \<le> 0 then st0
         else fold (process_knowledge_sample chat loads max_length)
                (enumerate 0 evaluation_data) st0)"

subsection \<open>Stage B: \<^verbatim>\<open>run_evaluation_student\<close> and \<^verbatim>\<open>run_evaluation_task3\<close>\<close>

text \<open>
  \<^verbatim>\<open>calculate_overall_accuracy\<close>, and the knowledge as the prompt takes it: the string
  itself, or \<^verbatim>\<open>json.dumps\<close> of any other value (\<open>dumps\<close>, from the library).
\<close>

definition calculate_overall_accuracy ::
  "(ustring \<Rightarrow> ustring) \<Rightarrow> 'a sample_scheme list \<Rightarrow> pyerr + rat" where
  "calculate_overall_accuracy str_upper results =
     calculate_accuracy str_upper (map prediction results) (map answer results)"

definition knowledge_text :: "(json \<Rightarrow> ustring) \<Rightarrow> json \<Rightarrow> ustring" where
  "knowledge_text dumps k = (case k of JStr s \<Rightarrow> s | _ \<Rightarrow> dumps k)"

type_synonym 'm student_state = "('m, task3_sample) eval_state"

text \<open>
  Lines 144 to 159.  The student is called as \<^verbatim>\<open>model.chat(question_prompt, system_prompt)\<close>,
  with the default \<^verbatim>\<open>max_new_tokens\<close> of 4096.
\<close>

definition generate_student ::
  "'m chat_fun \<Rightarrow> (json \<Rightarrow> ustring) \<Rightarrow> nat \<Rightarrow> 'm student_state
     \<Rightarrow> (pyerr \<times> 'm student_state) + 'm student_state" where
  "generate_student chat dumps sample st =
     (case build_guided_student_prompt (question (heap st ! sample))
             (material (heap st ! sample)) (knowledge_text dumps (knowledge (heap st ! sample))) of
        (system_prompt, question_prompt) \<Rightarrow>
          (case chat (model st) question_prompt (Some system_prompt) 4096 of
             (Inl e, m) \<Rightarrow> Inl (e, st\<lparr>model := m\<rparr>)
           | (Inr model_response, m) \<Rightarrow>
               let heap1 = (heap st)[sample := (heap st ! sample)\<lparr>response := Some model_response\<rparr>]
               in (case extract_last_boxed_answer model_response of
                     Inl e \<Rightarrow> Inl (e, st\<lparr>heap := heap1, model := m\<rparr>)
                   | Inr p \<Rightarrow>
                       let heap2 = heap1[sample := (heap1 ! sample)\<lparr>prediction := p\<rparr>]
                       in Inr (st\<lparr>heap := heap2,
                                  results_file := append_to_jsonl (heap2 ! sample) (results_file st),
                                  evaluation_results := evaluation_results st @ [sample],
                                  model := m\<rparr>))))"

definition process_student_sample ::
  "'m chat_fun \<Rightarrow> (json \<Rightarrow> ustring) \<Rightarrow> nat \<Rightarrow> nat \<Rightarrow> nat \<times> nat \<Rightarrow> 'm student_state
     \<Rightarrow> (pyerr \<times> 'm student_state) + 'm student_state" where
  "process_student_sample chat dumps total_samples iteration is st =
     (case is of (sample_idx, sample) \<Rightarrow>
        let result_index = sample_idx + iteration * total_samples in
        if result_index < length (evaluation_results st) then Inr st
        else generate_student chat dumps sample st)"

text \<open>
  \<^verbatim>\<open>run_evaluation_student\<close> on the student's output file as found and on its own copy
  of the evaluation data.  \<open>student_loop\<close> is its first part, lines 112 to 161: the
  records of the file are loaded as fresh objects, then the samples of the copy, and
  the two nested loops run; it gives the state reached, or the exception with the state
  reached.  The result of \<^verbatim>\<open>run_evaluation_student\<close> is the student's \<^verbatim>\<open>"overall"\<close>
  accuracy with the output file, or the exception with the output file.
\<close>

definition student_loop ::
  "'m chat_fun \<Rightarrow> (json \<Rightarrow> ustring) \<Rightarrow> 'm \<Rightarrow> task3_sample list option \<Rightarrow> task3_sample list
     \<Rightarrow> int \<Rightarrow> (pyerr \<times> 'm student_state) + 'm student_state" where
  "student_loop chat dumps m file evaluation_data test_time =
     (let loaded = load_results file;
          data = [length loaded..<length loaded + length evaluation_data];
          st0 = \<lparr>heap = loaded @ evaluation_data, evaluation_results = [0..<length loaded],
                  results_file = file, model = m\<rparr>
      in for_each (\<lambda>iteration.
             for_each (process_student_sample chat dumps (length data) iteration)
               (enumerate 0 data))
           [0..<nat test_time] st0)"

definition run_evaluation_student ::
  "(ustring \<Rightarrow> ustring) \<Rightarrow> 'm chat_fun \<Rightarrow> (json \<Rightarrow> ustring) \<Rightarrow> 'm
     \<Rightarrow> task3_sample list option \<Rightarrow> task3_sample list \<Rightarrow> int
     \<Rightarrow> (pyerr \<times> task3_sample list option) + (rat \<times> task3_sample list option)" where
  "run_evaluation_student str_upper chat dumps m file evaluation_data test_time =
     (case student_loop chat dumps m file evaluation_data test_time of
        Inl (e, st) \<Rightarrow> Inl (e, results_file st)
      | Inr st \<Rightarrow>
          (case calculate_overall_accuracy str_upper
                  (map (\<lambda>r. heap st ! r) (evaluation_results st)) of
             Inl e \<Rightarrow> Inl (e, results_file st)
           | Inr overall_accuracy \<Rightarrow> Inr (overall_accuracy, results_file st)))"

definition student_roster :: "ustring list" where
  "student_roster = [ustr ''qwen-1_8b'', ustr ''qwen-7b'', ustr ''qwen-14b'', ustr ''yi-6b'',
     ustr ''internlm2-7b'']"

text \<open>
  The output files of the students, by model name, and the final score of task 3.
\<close>

type_synonym student_files = "ustring \<Rightarrow> task3_sample list option"

record task3_scores =
  overall :: rat
  student_scores :: "(ustring \<times> rat) list"

text \<open>
  The body of the loop over the roster, lines 181 to 185.  \<open>load_student\<close> stands for the
  constructor \<^verbatim>\<open>StudentModel(model_name, path)\<close>, which loads the weights or raises.
  The deep copy hands the student the samples as values.
\<close>

definition evaluate_student ::
  "(ustring \<Rightarrow> ustring) \<Rightarrow> (ustring \<Rightarrow> pyerr + 'm) \<Rightarrow> 'm chat_fun \<Rightarrow> (json \<Rightarrow> ustring)
     \<Rightarrow> task3_sample list \<Rightarrow> int
     \<Rightarrow> ustring \<Rightarrow> (ustring \<times> rat) list \<times> student_files
     \<Rightarrow> (pyerr \<times> student_files) + ((ustring \<times> rat) list \<times> student_files)" where
  "evaluate_student str_upper load_student chat dumps evaluation_data test_time model_name st =
     (case st of (accuracy_scores, files) \<Rightarrow>
        (case load_student model_name of
           Inl e \<Rightarrow> Inl (e, files)
         | Inr student_model \<Rightarrow>
             (case run_evaluation_student str_upper chat dumps student_model (files model_name)
                     evaluation_data test_time of
                Inl (e, file) \<Rightarrow> Inl (e, files(model_name := file))
              | Inr (accuracy_score, file) \<Rightarrow>
                  Inr (dict_update model_name accuracy_score accuracy_scores,
                       files(model_name := file)))))"

text \<open>
  \<^verbatim>\<open>sum(values) / len(values)\<close> on a list of floats.  The built-in \<^verbatim>\<open>sum\<close> adds in
  floating point (how it rounds depends on the interpreter, which may compensate the
  error of the partial sums), and the division of its result by the length rounds once
  more: they are the parameters \<open>float_sum\<close> and \<open>float_div\<close>.  On the empty list
  \<^verbatim>\<open>sum\<close> is the integer 0 and the division by the length 0 raises.
\<close>

definition mean ::
  "(rat list \<Rightarrow> rat) \<Rightarrow> (rat \<Rightarrow> int \<Rightarrow> rat) \<Rightarrow> rat list \<Rightarrow> pyerr + rat" where
  "mean float_sum float_div values =
     (if length values = 0 then Inl ZeroDivisionError
      else Inr (float_div (float_sum values) (int (length values))))"

text \<open>
  \<^verbatim>\<open>run_evaluation_task3\<close>, on the knowledge file and the student files as found and the
  dataset as loaded.  \<^verbatim>\<open>release\<close> frees the memory of a backend and has no part in the
  values computed.
\<close>

definition run_evaluation_task3 ::
  "(ustring \<Rightarrow> ustring) \<Rightarrow> (rat list \<Rightarrow> rat) \<Rightarrow> (rat \<Rightarrow> int \<Rightarrow> rat)
     \<Rightarrow> 't chat_fun \<Rightarrow> (ustring \<Rightarrow> pyerr + json) \<Rightarrow> 't \<Rightarrow> (ustring \<Rightarrow> pyerr + 'm) \<Rightarrow> 'm chat_fun
     \<Rightarrow> (json \<Rightarrow> ustring) \<Rightarrow> task3_sample list option \<Rightarrow> student_files \<Rightarrow> task3_sample list
     \<Rightarrow> int \<Rightarrow> int
     \<Rightarrow> (pyerr \<times> task3_sample list option \<times> student_files)
        + (task3_scores \<times> task3_sample list option \<times> student_files)" where
  "run_evaluation_task3 str_upper float_sum float_div teacher_chat loads teacher_model
     load_student student_chat dumps knowledge_file0 files0 dataset test_time max_length =
     (let ks = generate_knowledge_for_task3 teacher_chat loads teacher_model knowledge_file0
                 dataset max_length;
          evaluation_data = knowledge_results ks
      in case for_each (evaluate_student str_upper load_student student_chat dumps
                          evaluation_data test_time)
                student_roster ([], files0) of
           Inl (e, files) \<Rightarrow> Inl (e, knowledge_file ks, files)
         | Inr (accuracy_scores, files) \<Rightarrow>
             (case mean float_sum float_div (map snd accuracy_scores) of
                Inl e \<Rightarrow> Inl (e, knowledge_file ks, files)
              | Inr m \<Rightarrow>
                  Inr (\<lparr>overall = m, student_scores = accuracy_scores\<rparr>,
                       knowledge_file ks, files)))"

text \<open>
  For the statement about the final score: the overall accuracy of a list of records in
  the words of the specification, the fraction of the records whose prediction is
  present and equal to the answer up to case (0 for no records).
\<close>

definition correct_fraction :: "(ustring \<Rightarrow> ustring) \<Rightarrow> 'a sample_scheme list \<Rightarrow> rat" where
  "correct_fraction str_upper records =
     (if records = [] then 0
      else of_nat (length (filter (\<lambda>r. case prediction r of None \<Rightarrow> False
                                      | Some p \<Rightarrow> str_upper p = str_upper (answer r)) records))
           / of_nat (length records))"




text \<open>
  For the comparison with the specification: the fallback in the words of the
  specification, which takes everything after the last occurrence of the literal and
  strips one layer of leading and trailing double quotes.  \<open>rejecting_loads\<close> is a
  decoder that raises, as \<^verbatim>\<open>json.loads\<close> does on a text that is not JSON, and
  \<open>doubled_quote_span\<close> is such a text, \<^verbatim>\<open>{"knowledge":""abc"}\<close>.
\<close>

definition strip_one_quote_layer :: "ustring \<Rightarrow> ustring" where
  "strip_one_quote_layer s =
     (let s1 = (if prefix [34] s then tl s else s)
      in if suffix [34] s1 then butlast s1 else s1)"

definition spec_fallback_knowledge :: "ustring \<Rightarrow> ustring" where
  "spec_fallback_knowledge content = strip_one_quote_layer (last (split knowledge_key content))"

definition rejecting_loads :: "ustring \<Rightarrow> pyerr + json" where
  "rejecting_loads t = Inl ValueError"

definition doubled_quote_span :: ustring where
  "doubled_quote_span = [123] @ knowledge_key @ [34, 34] @ ustr ''abc'' @ [34, 125]"

text \<open>
  For the proofs about the matcher: the results of a greedy and of a lazy repetition
  of a character class, the marker that every boxed span begins with, and the patterns
  that match only where a given literal occurs.
\<close>

fun greedy_drops :: "(nat \<Rightarrow> bool) \<Rightarrow> captures \<Rightarrow> ustring \<Rightarrow> mstate list" where
  "greedy_drops P g [] = [(g, [])]"
| "greedy_drops P g (d # s) = (if P d then greedy_drops P g s else []) @ [(g, d # s)]"

fun lazy_drops :: "(nat \<Rightarrow> bool) \<Rightarrow> captures \<Rightarrow> ustring \<Rightarrow> mstate list" where
  "lazy_drops P g [] = [(g, [])]"
| "lazy_drops P g (d # s) = (g, d # s) # (if P d then lazy_drops P g s else [])"

definition boxed_marker :: ustring where
  "boxed_marker = 92 # ustr ''boxed'' @ [123]"

definition needs_literal :: "ustring \<Rightarrow> regex \<Rightarrow> bool" where
  "needs_literal k r = (\<forall>x. matches r x \<noteq> [] \<longrightarrow> sublist k (snd x))"

text \<open>
  For the proofs about the answer extractor: the marker of the text alternative, the
  closing brace after group 1 of the boxed pattern, and the choice of the label from
  the last boxed content (lines 125 to 134).
\<close>

definition text_marker :: ustring where
  "text_marker = 92 # ustr ''text'' @ [123]"

definition close_group1 :: "ustring \<Rightarrow> mstate list \<Rightarrow> mstate list" where
  "close_group1 u ys =
     concat (map (\<lambda>y. matches (Chr 125)
        ((fst y)(1 := Some (take (length u - length (snd y)) u)), snd y)) ys)"

definition choose_label :: "ustring \<Rightarrow> ustring option" where
  "choose_label last_boxed =
     (if re_fullmatch single_letter_pattern last_boxed \<noteq> None then Some last_boxed
      else (case re_match dotted_letter_pattern last_boxed of
              Some g \<Rightarrow> Some (group g 1) | None \<Rightarrow> None))"

text \<open>
  For the proofs about the last boxed span.  \<open>consumed u z\<close> is the part of \<open>u\<close> that a
  match has read when \<open>z\<close> is left.  \<open>dotted_rest\<close> is the second alternative of the boxed
  pattern after its leading white space and optional opening brace; \<open>opt_brace\<close> lists
  the two ways of \<^verbatim>\<open>\}?\<close>, \<open>dotted_tail\<close> what follows the lazy \<^verbatim>\<open>.*?\<close> at one position
  (the two optional braces, group 3, and the closing brace after group 1), \<open>dotted_scan\<close>
  the positions the lazy \<^verbatim>\<open>.*?\<close> tries from left to right, \<open>dotted_body\<close> the letter
  and the dot or space before them.
\<close>

definition consumed :: "ustring \<Rightarrow> ustring \<Rightarrow> ustring" where
  "consumed u z = take (length u - length z) u"

definition dotted_rest :: regex where
  "dotted_rest = Seq (Group 3 (Seq (Cls is_option_letter) (Seq (Cls dot_or_space)
               (Seq (Lazy (Cls any_char)) (Opt (Chr 125)))))) (Opt (Chr 125))"

fun opt_brace :: "mstate \<Rightarrow> mstate list" where
  "opt_brace (h, []) = [(h, [])]"
| "opt_brace (h, c # r) = (if c = 125 then [(h, r), (h, c # r)] else [(h, c # r)])"

definition dotted_tail :: "ustring \<Rightarrow> ustring \<Rightarrow> mstate \<Rightarrow> mstate list" where
  "dotted_tail u w x =
     close_group1 u (concat (map (\<lambda>y. opt_brace ((fst y)(3 := Some (consumed w (snd y))), snd y))
       (opt_brace x)))"

definition dotted_scan :: "ustring \<Rightarrow> ustring \<Rightarrow> captures \<Rightarrow> ustring \<Rightarrow> mstate list" where
  "dotted_scan u w g v = concat (map (dotted_tail u w) (lazy_drops any_char g v))"

definition dotted_body :: "ustring \<Rightarrow> captures \<Rightarrow> ustring \<Rightarrow> mstate list" where
  "dotted_body u g w =
     (case w of [] \<Rightarrow> [] | L # w1 \<Rightarrow> (case w1 of [] \<Rightarrow> []
        | d # v \<Rightarrow> if is_option_letter L \<and> dot_or_space d then dotted_scan u w g v else []))"

text \<open>
  A boxed span is well formed when the boxed pattern, tried at its first character,
  matches it up to its last character.  \<open>interleave\<close> writes spans one after the other,
  each after its own filler text.
\<close>

definition well_formed_span :: "ustring \<Rightarrow> bool" where
  "well_formed_span sp =
     (case matches boxed_pattern (no_captures, sp) of [] \<Rightarrow> False | y # _ \<Rightarrow> snd y = [])"

definition interleave :: "(ustring \<times> ustring) list \<Rightarrow> ustring" where
  "interleave pieces = concat (map (\<lambda>(f, sp). f @ sp) pieces)"

lemma fold_count_filter:
  "fold (\<lambda>x n. if P x then n + 1 else n) xs (k::nat) = k + length (filter P xs)"
  by (induction xs arbitrary: k) auto

lemma count_correct_card:
  assumes "length ps = length as"
  shows "count_correct up ps as =
    card {i. i < length ps \<and> (\<exists>p. ps ! i = Some p \<and> up p = up (as ! i))}"
proof -
  have "count_correct up ps as = length (filter (is_correct up) (zip ps as))"
    by (simp add: count_correct_def fold_count_filter)
  also have "\<dots> = card {i. i < length (zip ps as) \<and> is_correct up (zip ps as ! i)}"
    by (rule length_filter_conv_card)
  also have "{i. i < length (zip ps as) \<and> is_correct up (zip ps as ! i)} =
      {i. i < length ps \<and> (\<exists>p. ps ! i = Some p \<and> up p = up (as ! i))}"
    using assms by (auto simp: is_correct_def split: option.splits) metis
  finally show ?thesis .
qed

text \<open>
  Claim C5.  Whatever \<^verbatim>\<open>str.upper\<close> does (\<open>str_upper\<close>): on lists of equal length
  \<open>calculate_accuracy\<close> returns the number of positions whose prediction is present and
  has the same upper-case form as the answer, divided by the number of positions; an
  absent prediction is counted as incorrect and nothing is raised or skipped.  On
  lists of different lengths it fails with the length-mismatch error.  On two empty
  lists it returns 0.  For the predictions a, None, C and the answers A, B, C it
  returns 2/3, given that \<^verbatim>\<open>str.upper\<close> maps a and A to the same text.
\<close>

theorem calculate_accuracy_fraction:
  "(length ps = length as \<longrightarrow>
      calculate_accuracy str_upper ps as =
        Inr (if ps = [] then 0
             else of_nat (card {i. i < length ps \<and>
                    (\<exists>p. ps ! i = Some p \<and> str_upper p = str_upper (as ! i))})
                  / of_nat (length ps)))
   \<and> (length ps \<noteq> length as \<longrightarrow> calculate_accuracy str_upper ps as = Inl ValueError)
   \<and> calculate_accuracy str_upper [] [] = Inr 0
   \<and> (str_upper (ustr ''a'') = str_upper (ustr ''A'') \<longrightarrow>
        calculate_accuracy str_upper [Some (ustr ''a''), None, Some (ustr ''C'')]
          [ustr ''A'', ustr ''B'', ustr ''C''] = Inr (2 / 3))"
proof (intro conjI impI)
  assume "length ps = length as"
  then show "calculate_accuracy str_upper ps as =
        Inr (if ps = [] then 0
             else of_nat (card {i. i < length ps \<and>
                    (\<exists>p. ps ! i = Some p \<and> str_upper p = str_upper (as ! i))})
                  / of_nat (length ps))"
    by (simp add: calculate_accuracy_def count_correct_card)
next
  assume "length ps \<noteq> length as"
  then show "calculate_accuracy str_upper ps as = Inl ValueError"
    by (simp add: calculate_accuracy_def)
next
  show "calculate_accuracy str_upper [] [] = Inr 0"
    by (simp add: calculate_accuracy_def)
next
  assume "str_upper (ustr ''a'') = str_upper (ustr ''A'')"
  then show "calculate_accuracy str_upper [Some (ustr ''a''), None, Some (ustr ''C'')]
        [ustr ''A'', ustr ''B'', ustr ''C''] = Inr (2 / 3)"
    by (simp add: calculate_accuracy_def count_correct_def is_correct_def)
qed

theorem calculate_accuracy_fraction_witness:
  "calculate_accuracy ascii_upper [None, Some (ustr ''b'')] [ustr ''A'', ustr ''B'']
     = Inr (1 / 2)
   \<and> calculate_accuracy ascii_upper [None] [] = Inl ValueError
   \<and> ascii_upper (ustr ''a'') = ascii_upper (ustr ''A'')
   \<and> calculate_accuracy ascii_upper [Some (ustr ''a''), None, Some (ustr ''C'')]
        [ustr ''A'', ustr ''B'', ustr ''C''] = Inr (2 / 3)"
proof -
  have "{i. i < Suc (Suc 0) \<and> (\<exists>p. [None, Some (ustr ''b'')] ! i = Some p \<and>
          ascii_upper p = ascii_upper ([ustr ''A'', ustr ''B''] ! i))} = {1}"
    by (auto simp: nth_Cons' ascii_upper_def ascii_upper_char_def ustr_def)
  moreover have "ascii_upper (ustr ''a'') = ascii_upper (ustr ''A'')"
    by (simp add: ascii_upper_def ascii_upper_char_def ustr_def)
  ultimately show ?thesis
    using calculate_accuracy_fraction
        [of "[None, Some (ustr ''b'')]" "[ustr ''A'', ustr ''B'']" ascii_upper]
      calculate_accuracy_fraction [of "[None]" "[]" ascii_upper]
    by simp
qed


text \<open>
  Claim C2.  The hierarchical accuracy is to hold, for each field, the field's own
  \<^verbatim>\<open>"overall"\<close> and one entry per sub field met within the field.  The code stores the
  sub field containers under \<^verbatim>\<open>field_data[field][sub_field]\<close> but tests and iterates
  \<^verbatim>\<open>field_data[field]["sub_field"]\<close>, which stays empty.  On one correct record of
  field f and sub field s the result is the field's \<^verbatim>\<open>"overall"\<close> and the top-level
  \<^verbatim>\<open>"overall"\<close> only: the entry for s is missing.
\<close>

theorem calculate_field_accuracy_no_sub_field_entry:
  "calculate_field_accuracy str_upper
     [\<lparr>question = ustr ''q'', answer = ustr ''A'', response = Some (ustr ''x''),
       prediction = Some (ustr ''A''), field = ustr ''f'', sub_field = ustr ''s''\<rparr>]
   = Inr [(ustr ''f'', Nested [(ustr ''overall'', 1)]), (ustr ''overall'', Scalar 1)]"
  by (simp add: calculate_field_accuracy_def organize_item_def score_field_def
      append_at3_def append_at2_def bind_err_def new_field_entry_def new_container_def
      container_accuracy_def calculate_accuracy_def count_correct_def is_correct_def
      ustr_def)

section \<open>Properties of the evaluation loop\<close>







lemma extract_last_boxed_answer_returns:
  "\<exists>p. extract_last_boxed_answer t = Inr p"
  by (auto simp: extract_last_boxed_answer_def Let_def last_item_def bind_err_def
      split: option.splits)







subsection \<open>Evaluation of the extractors and the loop on concrete inputs\<close>

lemma lit_simps: "lit [] = Eps" "lit (c # s) = Seq (Chr c) (lit s)"
  by (simp_all add: lit_def)

lemma ustr_simps: "ustr [] = []" "ustr (c # s) = of_char c # ustr s"
  by (simp_all add: ustr_def)

lemmas regex_eval = boxed_pattern_def boxed_text_alt_def boxed_dotted_alt_def
  boxed_letter_alt_def single_letter_pattern_def dotted_letter_pattern_def lit_simps ustr_simps
  is_space_def is_option_letter_def dot_or_space_def any_char_def not_rbrace_def
  extract_last_boxed_answer_def collect_option_def group_def strip_def last_item_def
  bind_err_def re_fullmatch_def re_match_def no_captures_def Let_def

lemmas loop_eval = run_evaluation_task1_def evaluation_loop_def process_sample_def generate_def
  load_results_def append_to_jsonl_def final_file_def build_task1_prompt_def Let_def

lemmas accuracy_eval = calculate_field_accuracy_def organize_item_def score_field_def
  append_at3_def append_at2_def bind_err_def new_field_entry_def new_container_def
  container_accuracy_def calculate_accuracy_def count_correct_def is_correct_def
  ustr_def ascii_upper_def ascii_upper_char_def

lemma upt_0_2: "[0..<(2::nat)] = [0, 1]"
  by (simp add: numeral_2_eq_2)

lemma extract_plain_A: "extract_last_boxed_answer [65] = Inr None"
  by (simp add: regex_eval)

lemma extract_boxed_A:
  "extract_last_boxed_answer (92 # ustr ''boxed'' @ [123, 65, 125]) = Inr (Some [65])"
  by (simp add: regex_eval)

lemma extract_boxed_B:
  "extract_last_boxed_answer (92 # ustr ''boxed'' @ [123, 66, 125]) = Inr (Some [66])"
  by (simp add: regex_eval)

subsection \<open>Resume correctness\<close>



subsection \<open>Records after the append\<close>

text \<open>
  Claim C3.  A record that has been appended is to keep its response and prediction.
  The loop appends the sample object itself to \<^verbatim>\<open>evaluation_results\<close> and writes to
  the same object again in the next iteration.  With one sample of answer A, two
  iterations and a backend that answers with a boxed A first and a boxed B next, the
  output file holds the record with prediction A and then the one with prediction B,
  while both entries of \<^verbatim>\<open>evaluation_results\<close> are the address of one object, whose
  prediction is B by then: the accuracy returned is 0, whereas the records of the
  file give 1/2.
\<close>

theorem appended_record_overwritten:
  "run_evaluation_task1 ascii_upper
     (\<lambda>m p s n. (Inr (92 # ustr ''boxed'' @ [123, if m = (0::nat) then 65 else 66, 125]), Suc m))
     0 None
     [\<lparr>question = [81], answer = [65], response = None, prediction = None,
       field = [70], sub_field = [83]\<rparr>] 2 4096
   = Inr ([([70], Nested [(ustr ''overall'', 0)]), (ustr ''overall'', Scalar 0)],
       \<lparr>heap = [\<lparr>question = [81], answer = [65],
                  response = Some (92 # ustr ''boxed'' @ [123, 66, 125]),
                  prediction = Some [66], field = [70], sub_field = [83]\<rparr>],
         evaluation_results = [0, 0],
         results_file = Some
           [\<lparr>question = [81], answer = [65],
              response = Some (92 # ustr ''boxed'' @ [123, 65, 125]),
              prediction = Some [65], field = [70], sub_field = [83]\<rparr>,
            \<lparr>question = [81], answer = [65],
              response = Some (92 # ustr ''boxed'' @ [123, 66, 125]),
              prediction = Some [66], field = [70], sub_field = [83]\<rparr>],
         model = 2\<rparr>)
   \<and> calculate_field_accuracy ascii_upper
       [\<lparr>question = [81], answer = [65],
          response = Some (92 # ustr ''boxed'' @ [123, 65, 125]),
          prediction = Some [65], field = [70], sub_field = [83]\<rparr>,
        \<lparr>question = [81], answer = [65],
          response = Some (92 # ustr ''boxed'' @ [123, 66, 125]),
          prediction = Some [66], field = [70], sub_field = [83]\<rparr>]
     = Inr ([([70], Nested [(ustr ''overall'', 1 / 2)]), (ustr ''overall'', Scalar (1 / 2))])"
proof -
  have a: "extract_last_boxed_answer (92 # ustr ''boxed'' @ [123, if (0::nat) = 0 then 65 else 66, 125])
      = Inr (Some [65])"
    using extract_boxed_A by simp
  have b: "extract_last_boxed_answer (92 # ustr ''boxed'' @ [123, if Suc 0 = 0 then 65 else 66, 125])
      = Inr (Some [66])"
    using extract_boxed_B by simp
  show ?thesis
    using a b by (simp add: loop_eval upt_0_2 accuracy_eval)
qed

section \<open>Properties of the two-stage pipeline\<close>

lemmas knowledge_eval = extract_last_knowledge_object_def pattern_codeblock_def
  pattern_multiline_def pattern_inline_def fence_json_def fence_def knowledge_key_def
  lit_simps ustr_simps is_space_def every_char_def any_char_def not_quote_def
  no_captures_def group_def last_item_def bind_err_def Let_def

lemmas stage_a_eval = generate_knowledge_for_task3_def process_knowledge_sample_def teach_def
  build_teacher_prompt_def load_results_def append_to_jsonl_def Let_def

lemmas stage_b_eval = run_evaluation_task3_def evaluate_student_def run_evaluation_student_def
  process_student_sample_def generate_student_def build_guided_student_prompt_def
  knowledge_text_def calculate_overall_accuracy_def calculate_accuracy_def count_correct_def
  is_correct_def mean_def student_loop_def ascii_upper_def ascii_upper_char_def

lemma extract_plain_k: "extract_last_knowledge_object loads [107] = Inr (JStr [])"
  by (simp add: knowledge_eval)

lemma extract_boxed_A_codes:
  "extract_last_boxed_answer [92, 98, 111, 120, 101, 100, 123, 65, 125] = Inr (Some [65])"
  using extract_boxed_A by (simp add: ustr_simps)

subsection \<open>Stage A after a failed sample\<close>

text \<open>
  Claim C6.  A sample whose processing raises is to be left out of the knowledge file
  and retried on the next resume.  The exception is caught and nothing is appended,
  but the resume cursor is the number of records in the file.  With three samples
  Q0, Q1, Q2 and a teacher backend that fails on its first call only, the first run
  leaves the records of Q1 and Q2 in the file; the second run, with a backend that
  works, skips the positions 0 and 1 and processes position 2 again: the file then
  holds Q1, Q2, Q2, and Q0 has not been retried.
\<close>

theorem failed_sample_not_retried:
  "generate_knowledge_for_task3
     (\<lambda>m p s n. (if m = (0::nat) then Inl BackendError else Inr [107], Suc m))
     loads 0 None
     [\<lparr>question = [81, 48], answer = [65], response = None, prediction = None,
       guideline = [71], material = [77], knowledge = JNull\<rparr>,
      \<lparr>question = [81, 49], answer = [65], response = None, prediction = None,
       guideline = [71], material = [77], knowledge = JNull\<rparr>,
      \<lparr>question = [81, 50], answer = [65], response = None, prediction = None,
       guideline = [71], material = [77], knowledge = JNull\<rparr>] 4096
   = \<lparr>knowledge_results =
        [\<lparr>question = [81, 49], answer = [65], response = Some [107], prediction = None,
          guideline = [71], material = [77], knowledge = JStr []\<rparr>,
         \<lparr>question = [81, 50], answer = [65], response = Some [107], prediction = None,
          guideline = [71], material = [77], knowledge = JStr []\<rparr>],
      knowledge_file = Some
        [\<lparr>question = [81, 49], answer = [65], response = Some [107], prediction = None,
          guideline = [71], material = [77], knowledge = JStr []\<rparr>,
         \<lparr>question = [81, 50], answer = [65], response = Some [107], prediction = None,
          guideline = [71], material = [77], knowledge = JStr []\<rparr>],
      teacher = 3\<rparr>
   \<and> generate_knowledge_for_task3
     (\<lambda>m p s n. (if m = (0::nat) then Inl BackendError else Inr [107], Suc m))
     loads 1
     (Some
        [\<lparr>question = [81, 49], answer = [65], response = Some [107], prediction = None,
          guideline = [71], material = [77], knowledge = JStr []\<rparr>,
         \<lparr>question = [81, 50], answer = [65], response = Some [107], prediction = None,
          guideline = [71], material = [77], knowledge = JStr []\<rparr>])
     [\<lparr>question = [81, 48], answer = [65], response = None, prediction = None,
       guideline = [71], material = [77], knowledge = JNull\<rparr>,
      \<lparr>question = [81, 49], answer = [65], response = None, prediction = None,
       guideline = [71], material = [77], knowledge = JNull\<rparr>,
      \<lparr>question = [81, 50], answer = [65], response = None, prediction = None,
       guideline = [71], material = [77], knowledge = JNull\<rparr>] 4096
   = \<lparr>knowledge_results =
        [\<lparr>question = [81, 49], answer = [65], response = Some [107], prediction = None,
          guideline = [71], material = [77], knowledge = JStr []\<rparr>,
         \<lparr>question = [81, 50], answer = [65], response = Some [107], prediction = None,
          guideline = [71], material = [77], knowledge = JStr []\<rparr>,
         \<lparr>question = [81, 50], answer = [65], response = Some [107], prediction = None,
          guideline = [71], material = [77], knowledge = JStr []\<rparr>],
      knowledge_file = Some
        [\<lparr>question = [81, 49], answer = [65], response = Some [107], prediction = None,
          guideline = [71], material = [77], knowledge = JStr []\<rparr>,
         \<lparr>question = [81, 50], answer = [65], response = Some [107], prediction = None,
          guideline = [71], material = [77], knowledge = JStr []\<rparr>,
         \<lparr>question = [81, 50], answer = [65], response = Some [107], prediction = None,
          guideline = [71], material = [77], knowledge = JStr []\<rparr>],
      teacher = 2\<rparr>"
  by (simp add: stage_a_eval extract_plain_k enumerate_eq_zip)

subsection \<open>The final score of task 3\<close>

lemma map_fst_dict_update_fresh:
  "k \<notin> set (map fst d) \<Longrightarrow> map fst (dict_update k v d) = map fst d @ [k]"
  by (induction d) auto

lemma map_of_dict_update: "map_of (dict_update k v d) = (map_of d)(k \<mapsto> v)"
  by (induction d) auto

lemma calculate_overall_accuracy_fraction:
  "calculate_overall_accuracy up rs = Inr (correct_fraction up rs)"
proof -
  have "zip (map prediction rs) (map answer rs) = map (\<lambda>r. (prediction r, answer r)) rs"
    by (induction rs) simp_all
  then have "count_correct up (map prediction rs) (map answer rs) =
      length (filter (\<lambda>r. case prediction r of None \<Rightarrow> False
                           | Some p \<Rightarrow> up p = up (answer r)) rs)"
    by (simp add: count_correct_def fold_count_filter filter_map comp_def is_correct_def)
  then show ?thesis
    by (simp add: calculate_overall_accuracy_def calculate_accuracy_def correct_fraction_def)
qed

lemma run_evaluation_student_score:
  assumes "run_evaluation_student up chat dumps m file dat T = Inr (a, file')"
  shows "\<exists>st. student_loop chat dumps m file dat T = Inr st
     \<and> a = correct_fraction up (map (\<lambda>r. heap st ! r) (evaluation_results st))
     \<and> file' = results_file st"
  using assms
  by (auto simp: run_evaluation_student_def calculate_overall_accuracy_fraction
      split: sum.splits prod.splits)

lemma evaluate_students:
  assumes "for_each (evaluate_student up ls sc dumps dat T) names (acc, files) = Inr (acc', files')"
    and "distinct names" and "set names \<inter> set (map fst acc) = {}"
  shows "map fst acc' = map fst acc @ names
    \<and> (\<forall>n \<in> set names. \<exists>m st. ls n = Inr m
           \<and> student_loop sc dumps m (files n) dat T = Inr st
           \<and> files' n = results_file st
           \<and> map_of acc' n = Some (correct_fraction up
                (map (\<lambda>r. heap st ! r) (evaluation_results st))))
    \<and> (\<forall>n. n \<notin> set names \<longrightarrow> files' n = files n \<and> map_of acc' n = map_of acc n)"
  using assms
proof (induction names arbitrary: acc files)
  case Nil
  then show ?case by simp
next
  case (Cons n names)
  from Cons.prems(1) obtain acc1 files1 where
    step: "evaluate_student up ls sc dumps dat T n (acc, files) = Inr (acc1, files1)"
    and rest: "for_each (evaluate_student up ls sc dumps dat T) names (acc1, files1)
        = Inr (acc', files')"
    by (auto split: sum.splits)
  from step obtain m a f1 where m: "ls n = Inr m"
    and run: "run_evaluation_student up sc dumps m (files n) dat T = Inr (a, f1)"
    and acc1: "acc1 = dict_update n a acc" and files1: "files1 = files(n := f1)"
    by (auto simp: evaluate_student_def split: sum.splits prod.splits)
  from run_evaluation_student_score [OF run] obtain st where
    st: "student_loop sc dumps m (files n) dat T = Inr st"
      "a = correct_fraction up (map (\<lambda>r. heap st ! r) (evaluation_results st))"
      "f1 = results_file st"
    by blast
  from Cons.prems(3) have fresh: "n \<notin> set (map fst acc)" by auto
  have keys1: "map fst acc1 = map fst acc @ [n]"
    unfolding acc1 using fresh by (rule map_fst_dict_update_fresh)
  from Cons.prems(2) have dist: "distinct names" and notin: "n \<notin> set names" by simp_all
  have disj: "set names \<inter> set (map fst acc1) = {}"
    using Cons.prems(2,3) keys1 by auto
  from Cons.IH [OF rest dist disj]
  have IH1: "map fst acc' = map fst acc1 @ names"
    and IH2: "\<forall>n \<in> set names. \<exists>m st. ls n = Inr m
           \<and> student_loop sc dumps m (files1 n) dat T = Inr st
           \<and> files' n = results_file st
           \<and> map_of acc' n = Some (correct_fraction up
                (map (\<lambda>r. heap st ! r) (evaluation_results st)))"
    and IH3: "\<forall>n. n \<notin> set names \<longrightarrow> files' n = files1 n \<and> map_of acc' n = map_of acc1 n"
    by blast+
  have one: "map fst acc' = map fst acc @ n # names"
    using IH1 keys1 by simp
  have two: "\<exists>m st. ls n' = Inr m
           \<and> student_loop sc dumps m (files n') dat T = Inr st
           \<and> files' n' = results_file st
           \<and> map_of acc' n' = Some (correct_fraction up
                (map (\<lambda>r. heap st ! r) (evaluation_results st)))"
    if n': "n' \<in> set (n # names)" for n'
  proof (cases "n' = n")
    case True
    from IH3 notin have "files' n = files1 n" "map_of acc' n = map_of acc1 n"
      by simp_all
    then have "files' n = results_file st"
      and "map_of acc' n = Some (correct_fraction up
            (map (\<lambda>r. heap st ! r) (evaluation_results st)))"
      using st(2,3) by (simp_all add: files1 acc1 map_of_dict_update)
    with m st(1) True show ?thesis by blast
  next
    case False
    with n' have "n' \<in> set names" by simp
    with IH2 obtain m' st' where "ls n' = Inr m'"
      "student_loop sc dumps m' (files1 n') dat T = Inr st'"
      "files' n' = results_file st'"
      "map_of acc' n' = Some (correct_fraction up
            (map (\<lambda>r. heap st' ! r) (evaluation_results st')))"
      by blast
    moreover have "files1 n' = files n'"
      using False by (simp add: files1)
    ultimately show ?thesis by auto
  qed
  have three: "files' n' = files n' \<and> map_of acc' n' = map_of acc n'"
    if "n' \<notin> set (n # names)" for n'
  proof -
    from that have ne: "n' \<noteq> n" and "n' \<notin> set names" by simp_all
    with IH3 have "files' n' = files1 n'" "map_of acc' n' = map_of acc1 n'"
      by simp_all
    with ne show ?thesis
      by (simp add: files1 acc1 map_of_dict_update)
  qed
  from one two three show ?case by blast
qed

lemma student_roster_distinct: "distinct student_roster"
  by (simp add: student_roster_def ustr_def)

lemma generate_student_effect:
  assumes "generate_student chat dumps x st = Inr st'" and "x < length (heap st)"
  shows "\<exists>r. heap st' = (heap st)[x := r]
     \<and> evaluation_results st' = evaluation_results st @ [x]
     \<and> results_file st' = Some (load_results (results_file st) @ [r])"
  using assms
  by (auto simp: generate_student_def Let_def append_to_jsonl_def
      split: prod.splits sum.splits)

lemma student_pass_records:
  assumes "for_each (process_student_sample chat dumps N 0) (enumerate k xs) st = Inr st'"
    and "\<forall>j < length xs. xs ! j = R + k + j"
    and "R + k + length xs \<le> length (heap st)"
    and "\<forall>r \<in> set (evaluation_results st). r < R + k"
    and "map (\<lambda>r. heap st ! r) (evaluation_results st) = load_results (results_file st)"
  shows "map (\<lambda>r. heap st' ! r) (evaluation_results st') = load_results (results_file st')"
  using assms
proof (induction xs arbitrary: k st)
  case Nil
  then show ?case by simp
next
  case (Cons x xs)
  from Cons.prems(2) have x: "x = R + k"
    by (metis add.right_neutral length_greater_0_conv list.distinct(1) nth_Cons_0)
  have addr: "\<forall>j < length xs. xs ! j = R + Suc k + j"
  proof (intro allI impI)
    fix j assume "j < length xs"
    then have "(x # xs) ! Suc j = R + k + Suc j"
      using Cons.prems(2) by (metis Suc_less_eq length_Cons)
    then show "xs ! j = R + Suc k + j" by simp
  qed
  from Cons.prems(1) obtain st1 where
    step: "process_student_sample chat dumps N 0 (k, x) st = Inr st1"
    and rest: "for_each (process_student_sample chat dumps N 0) (enumerate (Suc k) xs) st1
        = Inr st'"
    by (auto split: sum.splits)
  have "R + Suc k + length xs \<le> length (heap st1)
      \<and> (\<forall>r \<in> set (evaluation_results st1). r < R + Suc k)
      \<and> map (\<lambda>r. heap st1 ! r) (evaluation_results st1) = load_results (results_file st1)"
  proof (cases "k < length (evaluation_results st)")
    case True
    with step have "st1 = st"
      by (simp add: process_student_sample_def)
    with Cons.prems(3,4,5) show ?thesis
      by (auto simp: less_Suc_eq)
  next
    case False
    with step have g: "generate_student chat dumps x st = Inr st1"
      by (simp add: process_student_sample_def)
    have lt: "x < length (heap st)"
      using Cons.prems(3) x by simp
    from generate_student_effect [OF g lt] obtain r where
      h: "heap st1 = (heap st)[x := r]"
      and e: "evaluation_results st1 = evaluation_results st @ [x]"
      and f: "results_file st1 = Some (load_results (results_file st) @ [r])"
      by blast
    have old: "map (\<lambda>a. (heap st)[x := r] ! a) (evaluation_results st)
        = map (\<lambda>a. heap st ! a) (evaluation_results st)"
      using Cons.prems(4) x by (intro map_cong refl) (auto simp: nth_list_update)
    show ?thesis
      using Cons.prems(3,4,5) lt x old
      by (auto simp: h e f load_results_def less_Suc_eq)
  qed
  then show ?case
    using Cons.IH [OF rest addr] by blast
qed

lemma student_loop_records:
  assumes "student_loop chat dumps m file dat T = Inr st" and "T \<le> 1"
  shows "map (\<lambda>r. heap st ! r) (evaluation_results st) = load_results (results_file st)"
proof -
  let ?loaded = "load_results file"
  let ?R = "length ?loaded"
  let ?data = "[?R..<?R + length dat]"
  let ?st0 = "\<lparr>heap = ?loaded @ dat, evaluation_results = [0..<?R],
                results_file = file, model = m\<rparr>"
  have init: "map (\<lambda>r. heap ?st0 ! r) (evaluation_results ?st0) = load_results (results_file ?st0)"
    by (rule nth_equalityI) (simp_all add: nth_append)
  show ?thesis
  proof (cases "T \<le> 0")
    case True
    with assms(1) have "st = ?st0"
      by (simp add: student_loop_def Let_def)
    with init show ?thesis by simp
  next
    case False
    with assms(2) have "nat T = 1" by simp
    with assms(1) have pass:
      "for_each (process_student_sample chat dumps (length dat) 0) (enumerate 0 ?data) ?st0
         = Inr st"
      by (simp add: student_loop_def Let_def split: sum.splits)
    show ?thesis
    proof (rule student_pass_records [OF pass, of ?R])
      show "\<forall>j < length ?data. ?data ! j = ?R + 0 + j" by simp
      show "?R + 0 + length ?data \<le> length (heap ?st0)" by simp
      show "\<forall>r \<in> set (evaluation_results ?st0). r < ?R + 0" by simp
      show "map (\<lambda>r. heap ?st0 ! r) (evaluation_results ?st0)
          = load_results (results_file ?st0)"
        by (rule init)
    qed
  qed
qed

text \<open>
  Claim C7.  Whatever \<^verbatim>\<open>str.upper\<close>, \<^verbatim>\<open>sum\<close> and the float division do: when
  \<^verbatim>\<open>run_evaluation_task3\<close> returns, the keys of \<^verbatim>\<open>"student_scores"\<close> are the student
  identifiers of the roster, each once and in the order of the roster.  For every
  student of the roster the model was loaded, the student's loop ran to its end on
  the student's output file as found and on the evaluation data of stage A, the
  student's output file is the one that loop left, and the value under the student's
  name is the overall accuracy of the records that \<^verbatim>\<open>evaluation_results\<close> holds at
  the end of that loop: the fraction of them whose prediction is present and equal to
  the answer up to case.  With at most one iteration (\<^verbatim>\<open>test_time\<close> is 1 by default)
  these are the records of the student's output file.  \<^verbatim>\<open>"overall"\<close> is the sum of
  the values divided by the number of students, as \<^verbatim>\<open>sum\<close> and the float division
  compute them; if they are exact, it is the arithmetic mean of the values.
\<close>

theorem task3_final_score:
  "run_evaluation_task3 str_upper float_sum float_div teacher_chat loads teacher_model
     load_student student_chat dumps knowledge_file0 files0 dataset test_time max_length
     = Inr (scores, knowledge_file1, files1)
   \<longrightarrow> map fst (student_scores scores) = student_roster
       \<and> (\<forall>name \<in> set student_roster. \<exists>student_model st.
             load_student name = Inr student_model
           \<and> student_loop student_chat dumps student_model (files0 name)
               (knowledge_results (generate_knowledge_for_task3 teacher_chat loads
                  teacher_model knowledge_file0 dataset max_length)) test_time = Inr st
           \<and> files1 name = results_file st
           \<and> map_of (student_scores scores) name
               = Some (correct_fraction str_upper
                   (map (\<lambda>r. heap st ! r) (evaluation_results st)))
           \<and> (test_time \<le> 1 \<longrightarrow>
                map_of (student_scores scores) name
                  = Some (correct_fraction str_upper (load_results (files1 name)))))
       \<and> overall scores
           = float_div (float_sum (map snd (student_scores scores)))
               (int (length student_roster))
       \<and> (float_sum = sum_list \<and> float_div = (\<lambda>s n. s / of_int n) \<longrightarrow>
            overall scores
              = sum_list (map snd (student_scores scores)) / of_nat (length student_roster))"
proof
  assume run: "run_evaluation_task3 str_upper float_sum float_div teacher_chat loads
     teacher_model load_student student_chat dumps knowledge_file0 files0 dataset test_time
     max_length = Inr (scores, knowledge_file1, files1)"
  let ?data = "knowledge_results (generate_knowledge_for_task3 teacher_chat loads teacher_model
      knowledge_file0 dataset max_length)"
  from run obtain acc where
    loop: "for_each (evaluate_student str_upper load_student student_chat dumps ?data test_time)
        student_roster ([], files0) = Inr (acc, files1)"
    and m: "mean float_sum float_div (map snd acc) = Inr (overall scores)"
    and sc: "student_scores scores = acc"
    by (auto simp: run_evaluation_task3_def Let_def split: sum.splits prod.splits)
  have disj: "set student_roster \<inter> set (map fst ([] :: (ustring \<times> rat) list)) = {}"
    by simp
  from evaluate_students [OF loop student_roster_distinct disj]
  have keys: "map fst acc = student_roster"
    and ev: "\<forall>n \<in> set student_roster. \<exists>m st. load_student n = Inr m
           \<and> student_loop student_chat dumps m (files0 n) ?data test_time = Inr st
           \<and> files1 n = results_file st
           \<and> map_of acc n = Some (correct_fraction str_upper
                (map (\<lambda>r. heap st ! r) (evaluation_results st)))"
    by simp_all
  then have "length acc = length student_roster"
    by (metis length_map)
  with m have mean: "overall scores
      = float_div (float_sum (map snd acc)) (int (length student_roster))"
    by (auto simp: mean_def split: if_splits)
  have each: "\<exists>student_model st.
             load_student name = Inr student_model
           \<and> student_loop student_chat dumps student_model (files0 name) ?data test_time = Inr st
           \<and> files1 name = results_file st
           \<and> map_of acc name
               = Some (correct_fraction str_upper
                   (map (\<lambda>r. heap st ! r) (evaluation_results st)))
           \<and> (test_time \<le> 1 \<longrightarrow>
                map_of acc name = Some (correct_fraction str_upper (load_results (files1 name))))"
    if "name \<in> set student_roster" for name
  proof -
    from ev that obtain sm st where sm: "load_student name = Inr sm"
      and st: "student_loop student_chat dumps sm (files0 name) ?data test_time = Inr st"
      and f: "files1 name = results_file st"
      and v: "map_of acc name = Some (correct_fraction str_upper
                (map (\<lambda>r. heap st ! r) (evaluation_results st)))"
      by blast
    have "map_of acc name = Some (correct_fraction str_upper (load_results (files1 name)))"
      if "test_time \<le> 1"
      using student_loop_records [OF st that] v f by simp
    with sm st f v show ?thesis by blast
  qed
  from keys each mean sc
  show "map fst (student_scores scores) = student_roster
       \<and> (\<forall>name \<in> set student_roster. \<exists>student_model st.
             load_student name = Inr student_model
           \<and> student_loop student_chat dumps student_model (files0 name) ?data test_time = Inr st
           \<and> files1 name = results_file st
           \<and> map_of (student_scores scores) name
               = Some (correct_fraction str_upper
                   (map (\<lambda>r. heap st ! r) (evaluation_results st)))
           \<and> (test_time \<le> 1 \<longrightarrow>
                map_of (student_scores scores) name
                  = Some (correct_fraction str_upper (load_results (files1 name)))))
       \<and> overall scores
           = float_div (float_sum (map snd (student_scores scores)))
               (int (length student_roster))
       \<and> (float_sum = sum_list \<and> float_div = (\<lambda>s n. s / of_int n) \<longrightarrow>
            overall scores
              = sum_list (map snd (student_scores scores)) / of_nat (length student_roster))"
    by simp
qed

theorem task3_final_score_witness:
  "\<exists>knowledge_file1 files1.
     run_evaluation_task3 ascii_upper sum_list (\<lambda>s n. s / of_int n)
       (\<lambda>m p s n. (Inr [107], m)) (\<lambda>t. Inl ValueError) ()
       (\<lambda>name. Inr name)
       (\<lambda>m p s n. (Inr (if m = ustr ''qwen-7b'' then 92 # ustr ''boxed'' @ [123, 65, 125]
                         else [65]), m))
       (\<lambda>k. []) None (\<lambda>name. None)
       [\<lparr>question = [81, 48], answer = [65], response = None, prediction = None,
         guideline = [71], material = [77], knowledge = JNull\<rparr>,
        \<lparr>question = [81, 49], answer = [65], response = None, prediction = None,
         guideline = [71], material = [77], knowledge = JNull\<rparr>] 1 4096
     = Inr (\<lparr>overall = 1 / 5,
              student_scores = [(ustr ''qwen-1_8b'', 0), (ustr ''qwen-7b'', 1),
                (ustr ''qwen-14b'', 0), (ustr ''yi-6b'', 0), (ustr ''internlm2-7b'', 0)]\<rparr>,
            knowledge_file1, files1)
     \<and> map fst [(ustr ''qwen-1_8b'', 0::rat), (ustr ''qwen-7b'', 1),
           (ustr ''qwen-14b'', 0), (ustr ''yi-6b'', 0), (ustr ''internlm2-7b'', 0)]
         = student_roster
     \<and> (\<forall>name \<in> set student_roster.
          map_of [(ustr ''qwen-1_8b'', 0::rat), (ustr ''qwen-7b'', 1),
                  (ustr ''qwen-14b'', 0), (ustr ''yi-6b'', 0), (ustr ''internlm2-7b'', 0)] name
            = Some (correct_fraction ascii_upper (load_results (files1 name))))
     \<and> (1 / 5 :: rat) = sum_list (map snd [(ustr ''qwen-1_8b'', 0::rat), (ustr ''qwen-7b'', 1),
           (ustr ''qwen-14b'', 0), (ustr ''yi-6b'', 0), (ustr ''internlm2-7b'', 0)])
         / of_nat (length student_roster)"
proof -
  let ?scores = "\<lparr>overall = 1 / 5,
     student_scores = [(ustr ''qwen-1_8b'', 0), (ustr ''qwen-7b'', 1),
       (ustr ''qwen-14b'', 0), (ustr ''yi-6b'', 0), (ustr ''internlm2-7b'', 0)]\<rparr>"
  let ?run = "run_evaluation_task3 ascii_upper sum_list (\<lambda>s n. s / of_int n)
       (\<lambda>m p s n. (Inr [107], m)) (\<lambda>t. Inl ValueError) ()
       (\<lambda>name. Inr name)
       (\<lambda>m p s n. (Inr (if m = ustr ''qwen-7b'' then 92 # ustr ''boxed'' @ [123, 65, 125]
                         else [65]), m))
       (\<lambda>k. []) None (\<lambda>name. None)
       [\<lparr>question = [81, 48], answer = [65], response = None, prediction = None,
         guideline = [71], material = [77], knowledge = JNull\<rparr>,
        \<lparr>question = [81, 49], answer = [65], response = None, prediction = None,
         guideline = [71], material = [77], knowledge = JNull\<rparr>] 1 4096"
  have "\<exists>knowledge_file1 files1. ?run = Inr (?scores, knowledge_file1, files1)"
    by (simp add: stage_b_eval stage_a_eval extract_plain_k enumerate_eq_zip student_roster_def
        extract_plain_A extract_boxed_A_codes ustr_simps)
  then obtain knowledge_file1 files1 where run: "?run = Inr (?scores, knowledge_file1, files1)"
    by blast
  have le: "(1::int) \<le> 1" by simp
  from task3_final_score [where str_upper = ascii_upper and float_sum = sum_list
      and float_div = "\<lambda>s n. s / of_int n"
      and teacher_chat = "\<lambda>m p s n. (Inr [107], m)" and loads = "\<lambda>t. Inl ValueError"
      and teacher_model = "()" and load_student = "\<lambda>name. Inr name"
      and student_chat = "\<lambda>m p s n. (Inr (if m = ustr ''qwen-7b''
                         then 92 # ustr ''boxed'' @ [123, 65, 125] else [65]), m)"
      and dumps = "\<lambda>k. []" and ?knowledge_file0.0 = None and ?files0.0 = "\<lambda>name. None"
      and test_time = 1 and max_length = 4096 and scores = ?scores
      and ?knowledge_file1.0 = knowledge_file1 and ?files1.0 = files1] run le
  have "map fst (student_scores ?scores) = student_roster
       \<and> (\<forall>name \<in> set student_roster.
            map_of (student_scores ?scores) name
              = Some (correct_fraction ascii_upper (load_results (files1 name))))
       \<and> overall ?scores
           = sum_list (map snd (student_scores ?scores)) / of_nat (length student_roster)"
    by blast
  with run show ?thesis
    by (intro exI [of _ knowledge_file1] exI [of _ files1]) simp
qed

section \<open>Properties of the knowledge decode step\<close>

lemma knowledge_key_codes:
  "knowledge_key = [34, 107, 110, 111, 119, 108, 101, 100, 103, 101, 34, 58]"
  by (simp add: knowledge_key_def ustr_def)

lemma split_from_no_occurrence:
  "\<not> sublist sep s \<Longrightarrow> split_from sep piece s = [piece @ s]"
proof (induction sep piece s rule: split_from.induct)
  case (1 sep piece)
  then show ?case by simp
next
  case (2 sep piece c s)
  from "2.prems" have np: "\<not> prefix sep (c # s)"
    by (meson prefix_imp_sublist)
  from "2.prems" have "\<not> sublist sep s"
    by (meson sublist_Cons_right)
  with 2 np show ?case by simp
qed

lemma prefix_nth: "prefix xs ys \<Longrightarrow> i < length xs \<Longrightarrow> ys ! i = xs ! i"
  by (auto simp: prefix_def nth_append)

lemma key_quote_positions:
  "n < 12 \<Longrightarrow> knowledge_key ! n = 34 \<Longrightarrow> n = 0 \<or> n = 10"
proof -
  assume "n < 12" and q: "knowledge_key ! n = 34"
  then have "n \<in> {0, 1, 2, 3, 4, 5, 6, 7, 8, 9, 10, 11}" by simp arith
  then show ?thesis
    using q unfolding knowledge_key_codes by (elim insertE emptyE) simp_all
qed

lemma key_no_overlap:
  assumes "prefix knowledge_key (pre @ knowledge_key @ rest)"
  shows "pre = [] \<or> length knowledge_key \<le> length pre"
proof (rule ccontr)
  assume "\<not> (pre = [] \<or> length knowledge_key \<le> length pre)"
  then have n: "0 < length pre" "length pre < 12"
    by (simp_all add: knowledge_key_codes)
  let ?s = "pre @ knowledge_key @ rest"
  have len: "length knowledge_key = 12" by (simp add: knowledge_key_codes)
  have eq: "?s ! i = knowledge_key ! i" if "i < 12" for i
    using prefix_nth [OF assms, of i] that len by simp
  have "?s ! length pre = 34"
    by (simp add: nth_append knowledge_key_codes)
  with eq [OF n(2)] have "knowledge_key ! length pre = 34" by simp
  from key_quote_positions [OF n(2) this] n(1) have l10: "length pre = 10" by simp
  have "?s ! 11 = (knowledge_key @ rest) ! 1"
    using l10 by (simp add: nth_append)
  then have "?s ! 11 = 107"
    by (simp add: knowledge_key_codes)
  moreover have "?s ! 11 = 58"
    using eq [of 11] by (simp add: knowledge_key_codes)
  ultimately show False by simp
qed


lemma split_from_nonempty: "split_from sep piece s \<noteq> []"
  by (induction sep piece s rule: split_from.induct) auto

lemma split_last_after_key:
  "\<not> sublist knowledge_key rest \<Longrightarrow>
     last (split_from knowledge_key piece (pre @ knowledge_key @ rest)) = rest"
proof (induction "length pre" arbitrary: pre piece rule: less_induct)
  case less
  have len: "length knowledge_key = 12" by (simp add: knowledge_key_codes)
  have ne: "knowledge_key \<noteq> []" by (simp add: knowledge_key_codes)
  show ?case
  proof (cases pre)
    case Nil
    from ne obtain c s where cs: "knowledge_key @ rest = c # s"
      by (metis append_Cons neq_Nil_conv)
    have "split_from knowledge_key piece (c # s) =
        piece # split_from knowledge_key [] (drop (length knowledge_key) (c # s))"
      using ne cs by (metis prefixI split_from.simps(2))
    also have "drop (length knowledge_key) (c # s) = rest"
      using cs by (metis append_eq_conv_conj)
    finally show ?thesis
      using Nil cs less.prems by (simp add: split_from_no_occurrence)
  next
    case (Cons c pre')
    let ?s = "pre' @ knowledge_key @ rest"
    show ?thesis
    proof (cases "prefix knowledge_key (pre @ knowledge_key @ rest)")
      case True
      from key_no_overlap [OF True] Cons have le: "length knowledge_key \<le> length pre" by simp
      have d: "drop (length knowledge_key) (pre @ knowledge_key @ rest) =
          drop (length knowledge_key) pre @ knowledge_key @ rest"
        using le by simp
      have "split_from knowledge_key piece (pre @ knowledge_key @ rest) =
          piece # split_from knowledge_key [] (drop (length knowledge_key) (pre @ knowledge_key @ rest))"
        using True ne Cons by simp
      then have "last (split_from knowledge_key piece (pre @ knowledge_key @ rest)) =
          last (split_from knowledge_key [] (drop (length knowledge_key) pre @ knowledge_key @ rest))"
        unfolding d by (simp add: split_from_nonempty)
      also have "\<dots> = rest"
        using less.prems le len Cons by (intro less.hyps) simp_all
      finally show ?thesis .
    next
      case False
      then have "split_from knowledge_key piece (c # ?s) =
          split_from knowledge_key (piece @ [c]) ?s"
        using Cons by simp
      moreover have "last (split_from knowledge_key (piece @ [c]) ?s) = rest"
        using less.prems Cons by (intro less.hyps) simp_all
      ultimately show ?thesis using Cons by simp
    qed
  qed
qed

lemma lstrip_chars_noop: "\<not> prefix [c] s \<Longrightarrow> lstrip_chars [c] s = s"
  by (cases s) (auto simp: lstrip_chars_def)

lemma rstrip_chars_noop: "\<not> suffix [c] s \<Longrightarrow> rstrip_chars [c] s = s"
  by (cases s rule: rev_cases) (auto simp: rstrip_chars_def)

lemma fallback_knowledge_unconditional:
  "fallback_knowledge cleaned_text =
     rstrip_chars [34] (lstrip_chars [34]
       (if sublist knowledge_key cleaned_text
        then strip (last (split knowledge_key cleaned_text)) else []))"
  by (simp add: fallback_knowledge_def Let_def lstrip_chars_noop rstrip_chars_noop)

lemma decode_failure:
  "\<forall>kv. loads c \<noteq> Inr (JObj kv) \<Longrightarrow> \<exists>e. bind_err (loads c) get_knowledge = Inl e"
  by (cases "loads c") (auto simp: bind_err_def get_knowledge_def split: json.splits)

lemmas fallback_eval = extract_knowledge_from_text_def knowledge_key_codes clean_fences_def
  fence_json_def fence_def ustr_simps bind_err_def fallback_knowledge_def split_def strip_def
  is_space_def lstrip_chars_def rstrip_chars_def Let_def sublist_code(3) suffix_to_prefix

text \<open>
  Claim C10, as stated: when the content does not parse, the decode step returns what
  is left after the last occurrence of the literal, less one layer of leading and
  trailing double quotes.  It fails on the span \<^verbatim>\<open>{"knowledge":""abc"}\<close>, which
  \<^verbatim>\<open>json.loads\<close> rejects: the code returns \<^verbatim>\<open>abc"}\<close>, having removed both leading
  quotes, where one layer less gives \<^verbatim>\<open>"abc"}\<close>.
\<close>

theorem fallback_one_layer_counterexample:
  "rejecting_loads (clean_fences doubled_quote_span) = Inl ValueError
   \<and> extract_knowledge_from_text rejecting_loads doubled_quote_span
       = Inr (JStr (ustr ''abc'' @ [34, 125]))
   \<and> spec_fallback_knowledge (clean_fences doubled_quote_span) = 34 # ustr ''abc'' @ [34, 125]
   \<and> extract_knowledge_from_text rejecting_loads doubled_quote_span
       \<noteq> Inr (JStr (spec_fallback_knowledge (clean_fences doubled_quote_span)))"
  by (simp add: fallback_eval rejecting_loads_def doubled_quote_span_def
      spec_fallback_knowledge_def strip_one_quote_layer_def)

text \<open>
  Claim C10, amended.  Let the content, after the removal of the fence markers, not
  decode to a JSON object: \<^verbatim>\<open>json.loads\<close> raises or returns a value that is not an
  object.  If the literal \<^verbatim>\<open>"knowledge":\<close> does not occur in the content, the decode
  step returns the empty string.  Otherwise it takes the text after the last
  occurrence of the literal, strips the surrounding white space, and removes every
  leading and then every trailing double quote.
\<close>

theorem fallback_knowledge_amended:
  "(\<forall>kv. loads (clean_fences text) \<noteq> Inr (JObj kv)) \<longrightarrow>
     (\<not> sublist knowledge_key (clean_fences text) \<longrightarrow>
        extract_knowledge_from_text loads text = Inr (JStr []))
     \<and> (clean_fences text = pre @ knowledge_key @ rest \<and> \<not> sublist knowledge_key rest \<longrightarrow>
        extract_knowledge_from_text loads text =
          Inr (JStr (rstrip_chars [34] (lstrip_chars [34] (strip rest)))))"
proof (intro impI conjI)
  assume fail: "\<forall>kv. loads (clean_fences text) \<noteq> Inr (JObj kv)"
  from decode_failure [of loads "clean_fences text"] fail
  have res: "extract_knowledge_from_text loads text =
      Inr (JStr (fallback_knowledge (clean_fences text)))"
    by (auto simp: extract_knowledge_from_text_def Let_def)
  show "extract_knowledge_from_text loads text = Inr (JStr [])"
    if "\<not> sublist knowledge_key (clean_fences text)"
    using that res
    by (simp add: fallback_knowledge_unconditional lstrip_chars_def rstrip_chars_def)
  show "extract_knowledge_from_text loads text =
          Inr (JStr (rstrip_chars [34] (lstrip_chars [34] (strip rest))))"
    if "clean_fences text = pre @ knowledge_key @ rest \<and> \<not> sublist knowledge_key rest"
  proof -
    from that have c: "clean_fences text = pre @ knowledge_key @ rest"
      and nr: "\<not> sublist knowledge_key rest" by simp_all
    have "sublist knowledge_key (clean_fences text)"
      unfolding c by (metis sublist_appendI)
    moreover have "last (split knowledge_key (clean_fences text)) = rest"
      unfolding c split_def using nr by (rule split_last_after_key)
    ultimately show ?thesis
      using res by (simp add: fallback_knowledge_unconditional)
  qed
qed

theorem fallback_knowledge_amended_witness:
  "extract_knowledge_from_text rejecting_loads doubled_quote_span
     = Inr (JStr (ustr ''abc'' @ [34, 125]))
   \<and> extract_knowledge_from_text rejecting_loads (ustr ''none'') = Inr (JStr [])"
proof -
  have r: "\<forall>kv. rejecting_loads t \<noteq> Inr (JObj kv)" for t
    by (simp add: rejecting_loads_def)
  have c: "clean_fences doubled_quote_span
      = [123] @ knowledge_key @ ([34, 34] @ ustr ''abc'' @ [34, 125])
      \<and> \<not> sublist knowledge_key ([34, 34] @ ustr ''abc'' @ [34, 125])"
    by (simp add: fallback_eval doubled_quote_span_def)
  have v: "rstrip_chars [34] (lstrip_chars [34] (strip ([34, 34] @ ustr ''abc'' @ [34, 125])))
      = ustr ''abc'' @ [34, 125]"
    by (simp add: fallback_eval)
  have n: "\<not> sublist knowledge_key (clean_fences (ustr ''none''))"
    by (simp add: fallback_eval)
  show ?thesis
    using fallback_knowledge_amended [of rejecting_loads doubled_quote_span "[123]"
        "[34, 34] @ ustr ''abc'' @ [34, 125]"]
      fallback_knowledge_amended [of rejecting_loads "ustr ''none''"]
      r c v n
    by simp
qed

section \<open>Properties of the matcher\<close>

lemma matches_Chr: "matches (Chr c) (g, s) = (case s of [] \<Rightarrow> [] | d # s' \<Rightarrow> if d = c then [(g, s')] else [])"
  by (simp split: list.splits)

lemma matches_Cls: "matches (Cls P) (g, s) = (case s of [] \<Rightarrow> [] | d # s' \<Rightarrow> if P d then [(g, s')] else [])"
  by (simp split: list.splits)

lemma matches_lit:
  "matches (lit m) (g, s) = (if prefix m s then [(g, drop (length m) s)] else [])"
proof (induction m arbitrary: s)
  case Nil
  then show ?case by (simp add: lit_def)
next
  case (Cons c m)
  then show ?case by (cases s) (auto simp: lit_simps)
qed

lemma matches_Seq_lit:
  "matches (Seq (lit m) r) (g, s) = (if prefix m s then matches r (g, drop (length m) s) else [])"
  by (simp add: matches_lit)

lemma star_greedy_Cls:
  "length s \<le> n \<Longrightarrow> star_greedy n (matches (Cls P)) (g, s) = greedy_drops P g s"
proof (induction n arbitrary: s)
  case 0
  then show ?case by simp
next
  case (Suc n)
  then show ?case by (cases s) auto
qed

lemma star_lazy_Cls:
  "length s \<le> n \<Longrightarrow> star_lazy n (matches (Cls P)) (g, s) = lazy_drops P g s"
proof (induction n arbitrary: s)
  case 0
  then show ?case by simp
next
  case (Suc n)
  then show ?case by (cases s) auto
qed

lemma matches_Star_Cls: "matches (Star (Cls P)) (g, s) = greedy_drops P g s"
  by (simp add: star_greedy_Cls del: matches.simps(3))

lemma matches_Lazy_Cls: "matches (Lazy (Cls P)) (g, s) = lazy_drops P g s"
  by (simp add: star_lazy_Cls del: matches.simps(3))

lemma concat_greedy_drops:
  "(\<And>d t. P d \<Longrightarrow> F (g, d # t) = []) \<Longrightarrow>
     concat (map F (greedy_drops P g s)) = F (g, dropWhile P s)"
  by (induction s) auto

lemma matches_Seq_Star_Cls:
  "(\<And>d t. P d \<Longrightarrow> matches r (g, d # t) = []) \<Longrightarrow>
     matches (Seq (Star (Cls P)) r) (g, s) = matches r (g, dropWhile P s)"
  using concat_greedy_drops [of P "matches r" g s]
  by (simp add: matches_Star_Cls del: matches.simps(6))

lemma findall_Nil:
  "(\<And>t. suffix t s \<Longrightarrow> matches r (no_captures, t) = []) \<Longrightarrow> findall r s = []"
proof (induction s)
  case Nil
  then show ?case by simp
next
  case (Cons c s)
  have "matches r (no_captures, c # s) = []"
    by (rule Cons.prems) simp
  moreover have "findall r s = []"
    by (rule Cons.IH) (simp add: Cons.prems suffix_Cons)
  ultimately show ?case by simp
qed

lemma star_greedy_suffix:
  assumes "\<And>x y. y \<in> set (step x) \<Longrightarrow> suffix (snd y) (snd x)"
  shows "y \<in> set (star_greedy n step x) \<Longrightarrow> suffix (snd y) (snd x)"
proof (induction n arbitrary: x y)
  case 0
  then show ?case by simp
next
  case (Suc n)
  from Suc.prems consider "y = x"
    | z where "z \<in> set (step x)" "y \<in> set (star_greedy n step z)"
    by (auto split: if_splits)
  then show ?case
  proof cases
    case 1
    then show ?thesis by simp
  next
    case 2
    from 2(2) have "suffix (snd y) (snd z)" by (rule Suc.IH)
    moreover from 2(1) have "suffix (snd z) (snd x)" by (rule assms)
    ultimately show ?thesis by (rule suffix_order.trans)
  qed
qed

lemma star_lazy_suffix:
  assumes "\<And>x y. y \<in> set (step x) \<Longrightarrow> suffix (snd y) (snd x)"
  shows "y \<in> set (star_lazy n step x) \<Longrightarrow> suffix (snd y) (snd x)"
proof (induction n arbitrary: x y)
  case 0
  then show ?case by simp
next
  case (Suc n)
  from Suc.prems consider "y = x"
    | z where "z \<in> set (step x)" "y \<in> set (star_lazy n step z)"
    by (auto split: if_splits)
  then show ?case
  proof cases
    case 1
    then show ?thesis by simp
  next
    case 2
    from 2(2) have "suffix (snd y) (snd z)" by (rule Suc.IH)
    moreover from 2(1) have "suffix (snd z) (snd x)" by (rule assms)
    ultimately show ?thesis by (rule suffix_order.trans)
  qed
qed

lemma matches_suffix: "y \<in> set (matches r x) \<Longrightarrow> suffix (snd y) (snd x)"
proof (induction r arbitrary: x y)
  case Eps
  then show ?case by simp
next
  case (Chr c)
  then show ?case by (cases x) (auto split: list.splits if_splits intro: suffix_ConsI)
next
  case (Cls P)
  then show ?case by (cases x) (auto split: list.splits if_splits intro: suffix_ConsI)
next
  case (Seq a b)
  from Seq.prems obtain z where "z \<in> set (matches a x)" "y \<in> set (matches b z)"
    by auto
  then have "suffix (snd z) (snd x)" "suffix (snd y) (snd z)"
    by (auto dest: Seq.IH)
  then show ?case by (metis suffix_order.trans)
next
  case (Alt a b)
  from Alt.prems have "y \<in> set (matches a x) \<or> y \<in> set (matches b x)" by simp
  then show ?case using Alt.IH by blast
next
  case (Star r)
  then show ?case using star_greedy_suffix [of "matches r"] by simp
next
  case (Lazy r)
  then show ?case using star_lazy_suffix [of "matches r"] by simp
next
  case (Opt r)
  from Opt.prems have "y \<in> set (matches r x) \<or> y = x" by auto
  then show ?case using Opt.IH by (metis suffix_order.refl)
next
  case (Group n r)
  from Group.prems obtain z where "z \<in> set (matches r x)" "snd y = snd z" by auto
  then show ?case using Group.IH by metis
next
  case (Ahead r)
  then show ?case by (auto split: list.splits)
next
  case Eol
  then show ?case by (auto split: if_splits)
qed

lemma needs_literal_here: "needs_literal k (Seq (lit k) r)"
  by (auto simp: needs_literal_def matches_lit split: if_splits)

lemma needs_literal_Seq_right: "needs_literal k b \<Longrightarrow> needs_literal k (Seq a b)"
  unfolding needs_literal_def
proof (intro allI impI)
  fix x assume b: "\<forall>x. matches b x \<noteq> [] \<longrightarrow> sublist k (snd x)"
    and ne: "matches (Seq a b) x \<noteq> []"
  then obtain y where y: "y \<in> set (matches a x)" "matches b y \<noteq> []"
    by auto
  with b have "sublist k (snd y)" by (cases y) auto
  moreover from y(1) have "suffix (snd y) (snd x)" by (rule matches_suffix)
  ultimately show "sublist k (snd x)"
    by (meson sublist_order.order_trans suffix_imp_sublist)
qed

lemma needs_literal_Seq_left: "needs_literal k a \<Longrightarrow> needs_literal k (Seq a b)"
proof -
  have "matches (Seq a b) x \<noteq> [] \<Longrightarrow> matches a x \<noteq> []" for x
    by auto
  then show "needs_literal k a \<Longrightarrow> needs_literal k (Seq a b)"
    unfolding needs_literal_def by blast
qed

lemma needs_literal_Group: "needs_literal k r \<Longrightarrow> needs_literal k (Group n r)"
  by (auto simp: needs_literal_def)

lemma findall_without_literal:
  assumes "needs_literal k r" and "\<not> sublist k text"
  shows "findall r text = []"
proof (rule findall_Nil)
  fix t assume "suffix t text"
  with assms(2) have "\<not> sublist k t"
    by (meson sublist_order.order_trans suffix_imp_sublist)
  with assms(1) show "matches r (no_captures, t) = []"
    by (auto simp: needs_literal_def)
qed

lemma boxed_pattern_needs_marker: "needs_literal boxed_marker boxed_pattern"
  unfolding boxed_pattern_def boxed_marker_def by (rule needs_literal_here)

lemma knowledge_patterns_need_key:
  "needs_literal knowledge_key pattern_codeblock"
  "needs_literal knowledge_key pattern_multiline"
  "needs_literal knowledge_key pattern_inline"
  unfolding pattern_codeblock_def pattern_multiline_def pattern_inline_def
  by (intro needs_literal_Seq_right needs_literal_Seq_left needs_literal_Group needs_literal_here)+

lemma extract_last_knowledge_object_returns:
  "\<exists>k. extract_last_knowledge_object loads text = Inr k"
  by (auto simp: extract_last_knowledge_object_def Let_def last_item_def bind_err_def
      extract_knowledge_from_text_def split: sum.splits)

section \<open>Properties of the extractors\<close>

text \<open>
  Claim C9.  On a text in which the marker \<^verbatim>\<open>\boxed{\<close> does not occur the answer
  extractor returns \<^verbatim>\<open>None\<close>, and on a text in which the literal \<^verbatim>\<open>"knowledge":\<close>
  does not occur the knowledge extractor returns the empty string.  Neither extractor
  raises, whatever the text and whatever \<^verbatim>\<open>json.loads\<close> does.
\<close>

theorem extractors_fail_soft:
  "(\<not> sublist boxed_marker text \<longrightarrow> extract_last_boxed_answer text = Inr None)
   \<and> (\<not> sublist knowledge_key text \<longrightarrow> extract_last_knowledge_object loads text = Inr (JStr []))
   \<and> (\<exists>p. extract_last_boxed_answer text = Inr p)
   \<and> (\<exists>k. extract_last_knowledge_object loads text = Inr k)"
proof (intro conjI impI)
  assume "\<not> sublist boxed_marker text"
  then have "findall boxed_pattern text = []"
    using boxed_pattern_needs_marker by (rule findall_without_literal [rotated])
  then show "extract_last_boxed_answer text = Inr None"
    by (simp add: extract_last_boxed_answer_def)
next
  assume k: "\<not> sublist knowledge_key text"
  have "findall pattern_codeblock text = []" "findall pattern_multiline text = []"
    "findall pattern_inline text = []"
    using knowledge_patterns_need_key k by (auto intro: findall_without_literal)
  then show "extract_last_knowledge_object loads text = Inr (JStr [])"
    by (simp add: extract_last_knowledge_object_def)
next
  show "\<exists>p. extract_last_boxed_answer text = Inr p"
    by (rule extract_last_boxed_answer_returns)
  show "\<exists>k. extract_last_knowledge_object loads text = Inr k"
    by (rule extract_last_knowledge_object_returns)
qed

theorem extractors_fail_soft_witness:
  "\<not> sublist boxed_marker (ustr ''no answer here'')
   \<and> extract_last_boxed_answer (ustr ''no answer here'') = Inr None
   \<and> \<not> sublist knowledge_key (ustr ''no answer here'')
   \<and> extract_last_knowledge_object rejecting_loads (ustr ''no answer here'') = Inr (JStr [])"
proof -
  have "\<not> sublist boxed_marker (ustr ''no answer here'')"
    by (simp add: boxed_marker_def ustr_simps sublist_code(3))
  moreover have "\<not> sublist knowledge_key (ustr ''no answer here'')"
    by (simp add: knowledge_key_codes ustr_simps sublist_code(3))
  ultimately show ?thesis
    using extractors_fail_soft [of "ustr ''no answer here''" rejecting_loads] by simp
qed

section \<open>The text alternative of the boxed pattern\<close>

lemma close_group1_simps:
  "close_group1 u [] = []"
  "close_group1 u (ys @ zs) = close_group1 u ys @ close_group1 u zs"
  "close_group1 u [(h, 125 # r)] = [(h(1 := Some (take (length u - Suc (length r)) u)), r)]"
  "c \<noteq> 125 \<Longrightarrow> close_group1 u [(h, c # r)] = []"
  "close_group1 u [(h, [])] = []"
  by (simp_all add: close_group1_def)

lemma take_minus_dropWhile: "take (length v - length (dropWhile P v)) v = takeWhile P v"
proof -
  have "length v = length (takeWhile P v) + length (dropWhile P v)"
    by (metis length_append takeWhile_dropWhile_id)
  then have "take (length v - length (dropWhile P v)) v = take (length (takeWhile P v)) v"
    by simp
  then show ?thesis by (metis takeWhile_eq_take)
qed

lemma matches_boxed_pattern:
  "matches boxed_pattern (g, s) =
     (if prefix boxed_marker s
      then close_group1 (drop (length boxed_marker) s)
             (matches boxed_text_alt (g, drop (length boxed_marker) s)
              @ matches boxed_dotted_alt (g, drop (length boxed_marker) s)
              @ matches boxed_letter_alt (g, drop (length boxed_marker) s))
      else [])"
proof -
  have "matches (Seq (Group 1 (Alt boxed_text_alt (Alt boxed_dotted_alt boxed_letter_alt))) (Chr 125))
      (g, u) = close_group1 u (matches boxed_text_alt (g, u) @ matches boxed_dotted_alt (g, u)
              @ matches boxed_letter_alt (g, u))" for u
    by (simp add: close_group1_def comp_def)
  then show ?thesis
    unfolding boxed_pattern_def boxed_marker_def [symmetric]
    by (simp only: matches_Seq_lit)
qed

lemma matches_group_star_then:
  assumes "\<And>d t h. P d \<Longrightarrow> F (h, d # t) = []"
  shows "concat (map F (matches (Group n (Star (Cls P))) (g, v))) =
     F (g(n := Some (takeWhile P v)), dropWhile P v)"
proof -
  let ?cap = "\<lambda>y. ((fst y)(n := Some (take (length v - length (snd y)) v)), snd y)"
  have "concat (map F (matches (Group n (Star (Cls P))) (g, v))) =
      concat (map (F \<circ> ?cap) (greedy_drops P g v))"
    by (simp add: matches_Star_Cls del: matches.simps(6))
  also have "\<dots> = (F \<circ> ?cap) (g, dropWhile P v)"
    by (rule concat_greedy_drops) (simp add: assms)
  finally show ?thesis by (simp add: take_minus_dropWhile)
qed

lemma matches_boxed_text_alt:
  "matches boxed_text_alt (g, u) =
     (let w = dropWhile is_space u in
      if prefix text_marker w
      then (let v = drop (length text_marker) w in
            case dropWhile not_rbrace v of [] \<Rightarrow> []
            | c # r \<Rightarrow> [(g(2 := Some (takeWhile not_rbrace v)), r)])
      else [])"
proof -
  let ?rest = "Seq (lit text_marker) (Seq (Group 2 (Star (Cls not_rbrace))) (Chr 125))"
  have reject: "matches ?rest (h, d # t) = []" if "is_space d" for h d t
  proof -
    have "\<not> prefix text_marker (d # t)"
      using that by (auto simp: text_marker_def is_space_def)
    then show ?thesis by (simp only: matches_Seq_lit if_False)
  qed
  have tail: "matches (Seq (Group 2 (Star (Cls not_rbrace))) (Chr 125)) (g, v) =
      (case dropWhile not_rbrace v of [] \<Rightarrow> []
       | c # r \<Rightarrow> [(g(2 := Some (takeWhile not_rbrace v)), r)])" for v
  proof -
    have "matches (Seq (Group 2 (Star (Cls not_rbrace))) (Chr 125)) (g, v) =
        concat (map (matches (Chr 125)) (matches (Group 2 (Star (Cls not_rbrace))) (g, v)))"
      by simp
    also have "\<dots> = matches (Chr 125) (g(2 := Some (takeWhile not_rbrace v)), dropWhile not_rbrace v)"
      by (rule matches_group_star_then) (simp add: not_rbrace_def)
    also have "\<dots> = (case dropWhile not_rbrace v of [] \<Rightarrow> []
       | c # r \<Rightarrow> [(g(2 := Some (takeWhile not_rbrace v)), r)])"
    proof (cases "dropWhile not_rbrace v")
      case Nil
      show ?thesis unfolding matches_Chr Nil by simp
    next
      case (Cons c r)
      then have "\<not> not_rbrace c" by (metis hd_dropWhile list.distinct(1) list.sel(1))
      then show ?thesis unfolding matches_Chr Cons by (simp add: not_rbrace_def)
    qed
    finally show ?thesis .
  qed
  have "matches boxed_text_alt (g, u) = matches ?rest (g, dropWhile is_space u)"
    unfolding boxed_text_alt_def text_marker_def [symmetric]
    by (rule matches_Seq_Star_Cls) (rule reject)
  also have "\<dots> = (if prefix text_marker (dropWhile is_space u)
      then matches (Seq (Group 2 (Star (Cls not_rbrace))) (Chr 125))
             (g, drop (length text_marker) (dropWhile is_space u)) else [])"
    by (simp only: matches_Seq_lit)
  finally show ?thesis unfolding Let_def tail .
qed

lemma findall_skip:
  "(\<And>p. p < length pre \<Longrightarrow> matches r (no_captures, drop p (pre @ t)) = []) \<Longrightarrow>
     findall r (pre @ t) = findall r t"
proof (induction pre)
  case Nil
  then show ?case by simp
next
  case (Cons c pre)
  have "matches r (no_captures, (c # pre) @ t) = []"
    using Cons.prems [of 0] by simp
  moreover have "findall r (pre @ t) = findall r t"
  proof (rule Cons.IH)
    fix p assume "p < length pre"
    then show "matches r (no_captures, drop p (pre @ t)) = []"
      using Cons.prems [of "Suc p"] by simp
  qed
  ultimately show ?case by simp
qed

lemma findall_match:
  assumes "matches r (no_captures, m @ rest) = (g, rest) # ys" and "m \<noteq> []"
  shows "findall r (m @ rest) = (g, m) # findall r rest"
proof -
  from assms(2) obtain c s where cs: "m @ rest = c # s"
    by (cases m) auto
  have len: "length rest < length (c # s)"
    using assms(2) cs by (metis length_append length_greater_0_conv less_add_same_cancel2)
  have "take (length (c # s) - length rest) (c # s) = m"
    by (metis cs add_diff_cancel_right' append_eq_conv_conj length_append)
  with assms(1) len show ?thesis
    unfolding cs by simp
qed

lemma marker_no_overlap:
  assumes "prefix boxed_marker (pre @ boxed_marker @ rest)"
  shows "pre = [] \<or> length boxed_marker \<le> length pre"
proof (rule ccontr)
  assume "\<not> (pre = [] \<or> length boxed_marker \<le> length pre)"
  then have n: "0 < length pre" "length pre < length boxed_marker" by simp_all
  have len7: "length boxed_marker = 7"
    by (simp add: boxed_marker_def ustr_simps)
  have "(pre @ boxed_marker @ rest) ! length pre = 92"
    by (simp add: nth_append boxed_marker_def)
  with prefix_nth [OF assms n(2)] have m: "boxed_marker ! length pre = 92" by simp
  have zero: "k < 7 \<Longrightarrow> boxed_marker ! k = 92 \<Longrightarrow> k = 0" for k
  proof -
    assume "k < 7" and q: "boxed_marker ! k = 92"
    then have "k \<in> {0, 1, 2, 3, 4, 5, 6}" by simp arith
    then show "k = 0"
      using q unfolding boxed_marker_def by (elim insertE emptyE) (simp_all add: ustr_simps)
  qed
  from n(2) have "length pre < 7" by (simp only: len7)
  from zero [OF this m] n(1) show False by simp
qed

lemma no_marker_before:
  assumes "\<not> sublist boxed_marker pre" and "p < length pre"
  shows "\<not> prefix boxed_marker (drop p (pre @ boxed_marker @ rest))"
proof
  assume "prefix boxed_marker (drop p (pre @ boxed_marker @ rest))"
  with assms(2) have pr: "prefix boxed_marker (drop p pre @ boxed_marker @ rest)" by simp
  from marker_no_overlap [OF pr] assms(2) have "length boxed_marker \<le> length (drop p pre)"
    by simp
  with pr have "prefix boxed_marker (drop p pre)"
    by (metis prefix_length_prefix prefixI)
  then have "sublist boxed_marker (drop p pre)" by (rule prefix_imp_sublist)
  then have "sublist boxed_marker pre"
    by (meson sublist_order.order_trans suffix_drop suffix_imp_sublist)
  with assms(1) show False by simp
qed

lemma findall_boxed_skip:
  assumes "\<not> sublist boxed_marker pre"
  shows "findall boxed_pattern (pre @ boxed_marker @ rest) = findall boxed_pattern (boxed_marker @ rest)"
proof (rule findall_skip)
  fix p assume "p < length pre"
  from no_marker_before [OF assms this]
  show "matches boxed_pattern (no_captures, drop p (pre @ boxed_marker @ rest)) = []"
    by (simp add: matches_boxed_pattern)
qed


lemma extract_last_boxed_answer_options:
  "extract_last_boxed_answer s =
     (let extracted_options =
            fold collect_option
              (map (\<lambda>m. (group (fst m) 1, group (fst m) 2, group (fst m) 3, group (fst m) 4))
                 (findall boxed_pattern s)) []
      in if extracted_options = [] then Inr None
         else Inr (choose_label (last extracted_options)))"
  by (simp add: extract_last_boxed_answer_def Let_def last_item_def bind_err_def choose_label_def
      split: option.splits)





section \<open>The last boxed span\<close>

lemma consumed_append: "consumed (u @ t) (z @ t) = consumed u z"
  by (simp add: consumed_def)

lemma consumed_append_Cons: "consumed (u @ t) (c # z @ t) = consumed u (c # z)"
  using consumed_append [of u t "c # z"] by simp

lemma consumed_append_self: "consumed (u @ t) t = consumed u []"
  using consumed_append [of u t "[]"] by simp

lemma matches_Group: "matches (Group n r) (g, u) =
    map (\<lambda>y. ((fst y)(n := Some (consumed u (snd y))), snd y)) (matches r (g, u))"
  by (simp add: consumed_def)

lemma matches_Opt_brace: "matches (Opt (Chr 125)) y = opt_brace y"
  by (cases y rule: opt_brace.cases) simp_all

lemma matches_Opt_brace_fun: "matches (Opt (Chr 125)) = opt_brace"
  by (rule ext) (rule matches_Opt_brace)

lemma close_group1_Cons:
  "close_group1 u ((h, z) # ys) =
     (case z of [] \<Rightarrow> [] | c # r \<Rightarrow> if c = 125 then [(h(1 := Some (consumed u z)), r)] else [])
     @ close_group1 u ys"
  by (simp add: close_group1_def consumed_def split: list.splits)

lemma dotted_tail_no_brace:
  "r = [] \<or> hd r \<noteq> 125 \<Longrightarrow> dotted_tail u w (h, r) = []"
  by (cases r) (auto simp: dotted_tail_def close_group1_Cons close_group1_simps)

lemma dotted_tail_brace:
  "dotted_tail u w (h, 125 # r) =
     (case r of
        c # r2 \<Rightarrow> if c = 125 then
            (case r2 of c3 # r3 \<Rightarrow> if c3 = 125
                 then [(h(3 := Some (consumed w r), 1 := Some (consumed u r2)), r3)] else []
             | [] \<Rightarrow> [])
            @ [(h(3 := Some (consumed w r), 1 := Some (consumed u r)), r2)]
          else []
      | [] \<Rightarrow> [])
     @ (case r of c # r2 \<Rightarrow> if c = 125
            then [(h(3 := Some (consumed w (125 # r)), 1 := Some (consumed u r)), r2)] else []
        | [] \<Rightarrow> [])
     @ [(h(3 := Some (consumed w (125 # r)), 1 := Some (consumed u (125 # r))), r)]"
  by (auto simp: dotted_tail_def close_group1_Cons close_group1_simps split: list.splits)

lemma close_group1_greedy_drops:
  assumes "\<not> P 125"
  shows "close_group1 u (greedy_drops P h v) = close_group1 u [(h, dropWhile P v)]"
proof -
  let ?F = "\<lambda>y. matches (Chr 125) ((fst y)(1 := Some (take (length u - length (snd y)) u)), snd y)"
  have "concat (map ?F (greedy_drops P h v)) = ?F (h, dropWhile P v)"
    by (rule concat_greedy_drops) (use assms in auto)
  then show ?thesis by (simp add: close_group1_def del: matches.simps)
qed

lemma space_facts:
  "is_space d \<Longrightarrow> \<not> is_option_letter d" "is_space d \<Longrightarrow> d \<noteq> 123" "is_space d \<Longrightarrow> d \<noteq> 125"
  "is_space d \<Longrightarrow> d \<noteq> 92" "\<not> is_space 125" "\<not> is_option_letter 123" "\<not> is_option_letter 125"
  "\<not> dot_or_space 125" "\<not> is_option_letter 92" "is_option_letter d \<Longrightarrow> d \<noteq> 123"
  by (auto simp: is_space_def is_option_letter_def dot_or_space_def)

lemma letter_alt:
  "close_group1 u (matches boxed_letter_alt (g, u)) =
     (case dropWhile is_space u of [] \<Rightarrow> []
      | L # v \<Rightarrow> if is_option_letter L
          then (case dropWhile is_space v of [] \<Rightarrow> []
                | c # r \<Rightarrow> if c = 125 then [(g(4 := Some [L], 1 := Some (consumed u (c # r))), r)] else [])
          else [])"
proof -
  let ?r = "Seq (Group 4 (Cls is_option_letter)) (Star (Cls is_space))"
  have skip: "matches ?r (g, d # t) = []" if "is_space d" for d t
    using that by (simp add: space_facts del: matches.simps(6))
  have a: "matches boxed_letter_alt (g, u) = matches ?r (g, dropWhile is_space u)"
    unfolding boxed_letter_alt_def by (rule matches_Seq_Star_Cls) (rule skip)
  have b: "matches ?r (g, L # v) =
      (if is_option_letter L then greedy_drops is_space (g(4 := Some [L])) v else [])" for L v
    by (simp add: matches_Star_Cls del: matches.simps(6))
  have c: "matches ?r (g, []) = []"
    by simp
  show ?thesis
  proof (cases "dropWhile is_space u")
    case Nil
    then show ?thesis unfolding a by (simp only: c close_group1_simps list.case)
  next
    case (Cons L v)
    show ?thesis
    proof (cases "dropWhile is_space v")
      case Nil
      then show ?thesis
        unfolding a Cons b
        by (simp add: close_group1_greedy_drops space_facts close_group1_simps
            del: matches.simps dropWhile_eq_Nil_conv)
    next
      case dw: (Cons c r)
      show ?thesis
        unfolding a Cons b
        by (simp add: close_group1_greedy_drops space_facts close_group1_Cons close_group1_simps dw
            del: matches.simps dropWhile_eq_Nil_conv)
    qed
  qed
qed

lemma dotted_scan_simps:
  "dotted_scan u w g [] = []"
  "dotted_scan u w g (c # v) =
     dotted_tail u w (g, c # v) @ (if any_char c then dotted_scan u w g v else [])"
  by (simp_all add: dotted_scan_def dotted_tail_no_brace)

lemma close_group1_concat:
  "close_group1 u (concat yss) = concat (map (close_group1 u) yss)"
  by (induction yss) (simp_all add: close_group1_simps)

lemma close_group1_nested:
  "close_group1 u (concat (map F (concat (map G xs)))) =
     concat (map (\<lambda>x. close_group1 u (concat (map F (G x)))) xs)"
  by (induction xs) (simp_all add: close_group1_simps)

lemma matches_dotted_rest:
  "close_group1 u (matches dotted_rest (g, w)) = dotted_body u g w"
proof (cases w)
  case Nil
  then show ?thesis by (simp add: dotted_rest_def dotted_body_def close_group1_simps)
next
  case (Cons L w1)
  show ?thesis
  proof (cases w1)
    case Nil
    with Cons show ?thesis by (simp add: dotted_rest_def dotted_body_def close_group1_simps)
  next
    case (Cons d v)
    let ?D = "Seq (Cls is_option_letter) (Seq (Cls dot_or_space)
               (Seq (Lazy (Cls any_char)) (Opt (Chr 125))))"
    have D: "matches ?D (g, w) =
        (if is_option_letter L \<and> dot_or_space d
         then concat (map opt_brace (lazy_drops any_char g v)) else [])"
      using \<open>w = L # w1\<close> Cons
      by (simp add: matches_Lazy_Cls matches_Opt_brace_fun del: matches.simps(7,8))
    have "matches dotted_rest (g, w) =
        concat (map (\<lambda>y. opt_brace ((fst y)(3 := Some (consumed w (snd y))), snd y))
          (matches ?D (g, w)))"
      unfolding dotted_rest_def
      by (simp add: matches_Group matches_Opt_brace matches_Opt_brace_fun comp_def del: matches.simps(7,8,9))
    then show ?thesis
      unfolding D using \<open>w = L # w1\<close> Cons
      by (simp add: dotted_body_def dotted_scan_def close_group1_simps close_group1_nested
          dotted_tail_def [abs_def])
  qed
qed

lemma dotted_body_not_letter: "\<not> is_option_letter c \<Longrightarrow> dotted_body u g (c # w) = []"
  by (simp add: dotted_body_def split: list.splits)

lemma dotted_alt:
  "close_group1 u (matches boxed_dotted_alt (g, u)) =
     (case dropWhile is_space u of [] \<Rightarrow> []
      | c # w \<Rightarrow> if c = 123 then dotted_body u g w else dotted_body u g (c # w))"
proof -
  let ?r = "Seq (Opt (Chr 123)) dotted_rest"
  have r: "matches ?r (g, s) =
      (case s of [] \<Rightarrow> [] | c # w \<Rightarrow> if c = 123 then matches dotted_rest (g, w) else [])
      @ matches dotted_rest (g, s)" for s
    by (simp split: list.splits)
  have none: "matches dotted_rest (g, d # t) = []" if "\<not> is_option_letter d" for d t
    using that by (simp add: dotted_rest_def)
  have skip: "matches ?r (g, d # t) = []" if "is_space d" for d t
    unfolding r using that by (simp add: none space_facts del: matches.simps)
  have a: "matches boxed_dotted_alt (g, u) = matches ?r (g, dropWhile is_space u)"
    unfolding boxed_dotted_alt_def dotted_rest_def [symmetric]
    by (rule matches_Seq_Star_Cls) (rule skip)
  show ?thesis
  proof (cases "dropWhile is_space u")
    case Nil
    show ?thesis
      unfolding a r Nil
      by (simp add: close_group1_simps matches_dotted_rest dotted_body_def del: matches.simps)
  next
    case (Cons c w)
    show ?thesis
      unfolding a r Cons
      by (simp add: close_group1_simps matches_dotted_rest dotted_body_not_letter space_facts
          del: matches.simps)
  qed
qed

lemma dropWhile_append_nonempty:
  "dropWhile P xs \<noteq> [] \<Longrightarrow> dropWhile P (xs @ ys) = dropWhile P xs @ ys"
  by (induction xs) auto

lemma takeWhile_append_nonempty:
  "dropWhile P xs \<noteq> [] \<Longrightarrow> takeWhile P (xs @ ys) = takeWhile P xs"
  by (induction xs) auto

lemma consumed_append_single: "consumed (u @ t) (c # t) = consumed u [c]"
  using consumed_append [of u t "[c]"] by simp

lemma text_alt_stable:
  assumes "close_group1 u (matches boxed_text_alt (g, u)) = (gg, r) # ys"
  shows "close_group1 (u @ t) (matches boxed_text_alt (g, u @ t)) = [(gg, r @ t)]"
proof -
  let ?w = "dropWhile is_space u"
  let ?v = "drop (length text_marker) ?w"
  from assms have pre: "prefix text_marker ?w"
    by (auto simp: matches_boxed_text_alt Let_def close_group1_simps split: if_splits)
  then have w: "?w \<noteq> []"
    by (cases ?w) (simp_all add: text_marker_def del: dropWhile_eq_Nil_conv)
  from assms pre obtain b z where dv: "dropWhile not_rbrace ?v = b # z"
    by (cases "dropWhile not_rbrace ?v") (auto simp: matches_boxed_text_alt Let_def close_group1_simps)
  from assms pre dv have res:
    "close_group1 u [(g(2 := Some (takeWhile not_rbrace ?v)), z)] = (gg, r) # ys"
    by (simp add: matches_boxed_text_alt Let_def)
  then obtain z: "z = 125 # r"
    and gg: "gg = g(2 := Some (takeWhile not_rbrace ?v), 1 := Some (consumed u z))"
    by (cases z) (auto simp: close_group1_Cons close_group1_simps split: if_splits)
  have w': "dropWhile is_space (u @ t) = ?w @ t"
    using w by (rule dropWhile_append_nonempty)
  have pre': "prefix text_marker (?w @ t)"
    using pre by (rule prefix_prefix)
  have len: "length text_marker \<le> length ?w"
    using pre by (rule prefix_length_le)
  have v': "drop (length text_marker) (?w @ t) = ?v @ t"
    using len by simp
  have dv': "dropWhile not_rbrace (?v @ t) = b # z @ t"
    using dv dropWhile_append_nonempty [of not_rbrace ?v t] by simp
  have tv': "takeWhile not_rbrace (?v @ t) = takeWhile not_rbrace ?v"
    using dv takeWhile_append_nonempty [of not_rbrace ?v t] by simp
  show ?thesis
    unfolding matches_boxed_text_alt Let_def w' v' dv' tv'
    using pre' z gg
    by (simp add: close_group1_Cons close_group1_simps consumed_append_Cons del: drop_append)
qed

lemma text_alt_empty:
  assumes "dropWhile is_space u = c # w" and "c \<noteq> 92"
  shows "close_group1 (u @ t) (matches boxed_text_alt (g, u @ t)) = []"
proof -
  have "dropWhile is_space (u @ t) = c # w @ t"
    using assms(1) dropWhile_append_nonempty [of is_space u t] by simp
  then show ?thesis
    using assms(2) by (simp add: matches_boxed_text_alt Let_def text_marker_def close_group1_simps)
qed

lemma letter_alt_stable:
  assumes "close_group1 u (matches boxed_letter_alt (g, u)) = (gg, []) # ys"
  shows "close_group1 (u @ t) (matches boxed_letter_alt (g, u @ t)) = [(gg, t)]"
proof -
  from assms obtain L v where u: "dropWhile is_space u = L # v" and L: "is_option_letter L"
    by (cases "dropWhile is_space u") (auto simp: letter_alt split: if_splits)
  from assms u L have v: "dropWhile is_space v = [125]"
    and gg: "gg = g(4 := Some [L], 1 := Some (consumed u [125]))"
    by (cases "dropWhile is_space v"; auto simp: letter_alt split: if_splits)+
  have u': "dropWhile is_space (u @ t) = L # v @ t"
    using u dropWhile_append_nonempty [of is_space u t] by simp
  have v': "dropWhile is_space (v @ t) = 125 # t"
    using v dropWhile_append_nonempty [of is_space v t] by simp
  show ?thesis
    unfolding letter_alt u' using L by (simp add: v' gg consumed_append_single)
qed

lemma dotted_tail_nonempty: "dotted_tail u w (h, 125 # r) \<noteq> []"
  by (simp add: dotted_tail_brace)

lemma dotted_tail_stable:
  assumes "dotted_tail u w (h, 125 # r) = (gg, []) # ys" and "\<not> prefix [125] t"
  shows "\<exists>ys'. dotted_tail (u @ t) (w @ t) (h, 125 # r @ t) = (gg, t) # ys'"
proof (cases r)
  case Nil
  with assms show ?thesis
    by (cases t) (auto simp: dotted_tail_brace consumed_append_single consumed_append_self)
next
  case r: (Cons c r2)
  show ?thesis
  proof (cases "c = 125")
    case False
    with assms r show ?thesis by (simp add: dotted_tail_brace)
  next
    case c: True
    show ?thesis
    proof (cases r2)
      case Nil
      with assms r c show ?thesis
        by (cases t) (auto simp: dotted_tail_brace consumed_append_single consumed_append_self
            consumed_append_Cons)
    next
      case r2: (Cons c3 r3)
      show ?thesis
      proof (cases "c3 = 125")
        case False
        with assms r c r2 show ?thesis by (simp add: dotted_tail_brace)
      next
        case True
        with assms r c r2 have "r3 = []"
          by (simp add: dotted_tail_brace)
        with assms r c r2 True show ?thesis
          using consumed_append_Cons [of w t 125 "[125]"] consumed_append_Cons [of u t 125 "[]"]
          by (simp add: dotted_tail_brace)
      qed
    qed
  qed
qed

lemma dotted_scan_stable:
  assumes "dotted_scan u w g v = (gg, []) # ys" and "\<not> prefix [125] t"
  shows "\<exists>ys'. dotted_scan (u @ t) (w @ t) g (v @ t) = (gg, t) # ys'"
  using assms(1)
proof (induction v)
  case Nil
  then show ?case by (simp add: dotted_scan_simps)
next
  case (Cons c v)
  show ?case
  proof (cases "c = 125")
    case True
    then obtain y zs where tl: "dotted_tail u w (g, 125 # v) = y # zs"
      using dotted_tail_nonempty [of u w g v] by (cases "dotted_tail u w (g, 125 # v)") auto
    with Cons.prems True have "y = (gg, [])"
      by (simp add: dotted_scan_simps)
    with tl obtain ys' where "dotted_tail (u @ t) (w @ t) (g, 125 # v @ t) = (gg, t) # ys'"
      using dotted_tail_stable [OF _ assms(2)] by blast
    with True show ?thesis by (simp add: dotted_scan_simps)
  next
    case False
    then have no: "dotted_tail u' w' (g, c # z) = []" for u' w' z
      by (simp add: dotted_tail_no_brace)
    with Cons.prems have "any_char c" and "dotted_scan u w g v = (gg, []) # ys"
      by (auto simp: dotted_scan_simps split: if_splits)
    with Cons.IH no show ?thesis by (simp add: dotted_scan_simps)
  qed
qed

lemma dotted_scan_empty:
  assumes "dotted_scan u w g v = []" and "125 \<in> set v"
  shows "dotted_scan u' w' g (v @ t) = []"
  using assms
proof (induction v)
  case Nil
  then show ?case by simp
next
  case (Cons c v)
  from Cons.prems(1) have c: "c \<noteq> 125"
    using dotted_tail_nonempty [of u w g v] by (auto simp: dotted_scan_simps)
  then have no: "dotted_tail u' w' (g, c # z) = []" for u' w' z
    by (simp add: dotted_tail_no_brace)
  show ?case
  proof (cases "any_char c")
    case True
    with Cons.prems c have "dotted_scan u w g v = []" and "125 \<in> set v"
      by (auto simp: dotted_scan_simps)
    with Cons.IH no True show ?thesis by (simp add: dotted_scan_simps)
  next
    case False
    with no show ?thesis by (simp add: dotted_scan_simps)
  qed
qed

lemma dotted_body_stable:
  assumes "dotted_body u g w = (gg, []) # ys" and "\<not> prefix [125] t"
  shows "\<exists>ys'. dotted_body (u @ t) g (w @ t) = (gg, t) # ys'"
proof -
  from assms(1) obtain L d v where w: "w = L # d # v"
    and Ld: "is_option_letter L \<and> dot_or_space d"
    and scan: "dotted_scan u w g v = (gg, []) # ys"
    by (auto simp: dotted_body_def split: list.splits if_splits)
  from dotted_scan_stable [OF scan assms(2)] w Ld show ?thesis
    by (simp add: dotted_body_def)
qed

lemma dotted_body_empty:
  assumes "dotted_body u g (L # v) = []" and "dropWhile is_space v = [125]"
  shows "dotted_body u' g (L # v @ t) = []"
proof (cases v)
  case Nil
  with assms(2) show ?thesis by simp
next
  case (Cons d v')
  show ?thesis
  proof (cases "is_option_letter L \<and> dot_or_space d")
    case False
    with Cons show ?thesis by (auto simp: dotted_body_def)
  next
    case True
    have sp: "is_space d"
    proof (rule ccontr)
      assume "\<not> is_space d"
      with assms(2) Cons have "d = 125" by simp
      with True show False by (simp add: space_facts)
    qed
    with assms(2) Cons have "dropWhile is_space v' = [125]" by simp
    then have "125 \<in> set v'"
      by (metis list.set_intros(1) set_dropWhileD)
    moreover from assms(1) Cons True have "dotted_scan u (L # d # v') g v' = []"
      by (simp add: dotted_body_def)
    ultimately have "dotted_scan u' (L # d # v' @ t) g (v' @ t) = []"
      by (rule dotted_scan_empty [rotated])
    with Cons True show ?thesis by (simp add: dotted_body_def)
  qed
qed

lemma dotted_alt_stable:
  assumes "close_group1 u (matches boxed_dotted_alt (g, u)) = (gg, []) # ys"
    and "\<not> prefix [125] t"
  shows "\<exists>ys'. close_group1 (u @ t) (matches boxed_dotted_alt (g, u @ t)) = (gg, t) # ys'"
proof -
  from assms(1) obtain c w where u: "dropWhile is_space u = c # w"
    by (cases "dropWhile is_space u") (auto simp: dotted_alt)
  have u': "dropWhile is_space (u @ t) = c # w @ t"
    using u dropWhile_append_nonempty [of is_space u t] by simp
  show ?thesis
  proof (cases "c = 123")
    case True
    with assms(1) u have "dotted_body u g w = (gg, []) # ys"
      by (simp add: dotted_alt)
    from dotted_body_stable [OF this assms(2)] True show ?thesis
      by (simp add: dotted_alt u')
  next
    case False
    with assms(1) u have "dotted_body u g (c # w) = (gg, []) # ys"
      by (simp add: dotted_alt)
    from dotted_body_stable [OF this assms(2)] False show ?thesis
      by (simp add: dotted_alt u')
  qed
qed

lemma dotted_alt_empty:
  assumes "close_group1 u (matches boxed_dotted_alt (g, u)) = []"
    and "close_group1 u (matches boxed_letter_alt (g, u)) = (gg, []) # ys"
  shows "close_group1 (u @ t) (matches boxed_dotted_alt (g, u @ t)) = []"
proof -
  from assms(2) obtain L v where u: "dropWhile is_space u = L # v" and L: "is_option_letter L"
    by (cases "dropWhile is_space u") (auto simp: letter_alt split: if_splits)
  from assms(2) u L have v: "dropWhile is_space v = [125]"
    by (cases "dropWhile is_space v") (auto simp: letter_alt split: if_splits)
  have u': "dropWhile is_space (u @ t) = L # v @ t"
    using u dropWhile_append_nonempty [of is_space u t] by simp
  from L have L123: "L \<noteq> 123" by (rule space_facts)
  with assms(1) u have "dotted_body u g (L # v) = []"
    by (simp add: dotted_alt)
  from dotted_body_empty [OF this v] L123 show ?thesis
    by (simp add: dotted_alt u')
qed

lemma alt_first_char:
  assumes "close_group1 u (matches boxed_dotted_alt (g, u)) \<noteq> []
         \<or> close_group1 u (matches boxed_letter_alt (g, u)) \<noteq> []"
  shows "\<exists>c w. dropWhile is_space u = c # w \<and> c \<noteq> 92"
proof (cases "dropWhile is_space u")
  case Nil
  with assms show ?thesis by (simp add: dotted_alt letter_alt)
next
  case (Cons c w)
  have "c \<noteq> 92"
  proof
    assume c: "c = 92"
    then have "\<not> is_option_letter c" by (simp add: space_facts)
    with assms Cons c show False
      by (simp add: dotted_alt letter_alt dotted_body_not_letter)
  qed
  with Cons show ?thesis by simp
qed

lemma span_step:
  assumes "matches boxed_pattern (g, sp) = (gg, []) # ys" and "\<not> prefix [125] t"
  shows "\<exists>ys'. matches boxed_pattern (g, sp @ t) = (gg, t) # ys'"
proof -
  let ?u = "drop (length boxed_marker) sp"
  let ?T1 = "\<lambda>u. close_group1 u (matches boxed_text_alt (g, u))"
  let ?T2 = "\<lambda>u. close_group1 u (matches boxed_dotted_alt (g, u))"
  let ?T3 = "\<lambda>u. close_group1 u (matches boxed_letter_alt (g, u))"
  from assms(1) have pre: "prefix boxed_marker sp"
    by (simp add: matches_boxed_pattern split: if_splits)
  then have pre': "prefix boxed_marker (sp @ t)"
    by (rule prefix_prefix)
  have "length boxed_marker \<le> length sp"
    using pre by (rule prefix_length_le)
  then have u': "drop (length boxed_marker) (sp @ t) = ?u @ t"
    by simp
  from assms(1) pre have all: "?T1 ?u @ ?T2 ?u @ ?T3 ?u = (gg, []) # ys"
    by (simp add: matches_boxed_pattern close_group1_simps)
  have ext: "matches boxed_pattern (g, sp @ t) = ?T1 (?u @ t) @ ?T2 (?u @ t) @ ?T3 (?u @ t)"
    unfolding matches_boxed_pattern u' using pre' by (simp add: close_group1_simps)
  show ?thesis
  proof (cases "?T1 ?u")
    case (Cons y zs)
    with all have "?T1 ?u = (gg, []) # zs" by simp
    from text_alt_stable [OF this, of t] show ?thesis
      unfolding ext by simp
  next
    case T1: Nil
    show ?thesis
    proof (cases "?T2 ?u")
      case (Cons y zs)
      with all T1 have T2: "?T2 ?u = (gg, []) # zs" by simp
      then obtain c w where "dropWhile is_space ?u = c # w" and "c \<noteq> 92"
        using alt_first_char [of ?u g] by auto
      then have "?T1 (?u @ t) = []"
        by (rule text_alt_empty)
      with dotted_alt_stable [OF T2 assms(2)] show ?thesis
        unfolding ext by auto
    next
      case T2: Nil
      with all T1 have T3: "?T3 ?u = (gg, []) # ys" by simp
      then obtain c w where "dropWhile is_space ?u = c # w" and "c \<noteq> 92"
        using alt_first_char [of ?u g] by auto
      then have "?T1 (?u @ t) = []"
        by (rule text_alt_empty)
      moreover have "?T2 (?u @ t) = []"
        using T2 T3 by (rule dotted_alt_empty)
      moreover have "?T3 (?u @ t) = [(gg, t)]"
        using T3 by (rule letter_alt_stable)
      ultimately show ?thesis
        unfolding ext by simp
    qed
  qed
qed

lemma well_formed_span_marker: "well_formed_span sp \<Longrightarrow> prefix boxed_marker sp"
  by (auto simp: well_formed_span_def matches_boxed_pattern split: if_splits)

lemma well_formed_span_no_brace:
  "well_formed_span sp \<Longrightarrow> \<not> prefix [125] (sp @ t)"
  by (drule well_formed_span_marker) (auto simp: boxed_marker_def prefix_def)

lemma findall_span:
  assumes "well_formed_span sp" and "\<not> prefix [125] t"
  shows "\<exists>g. findall boxed_pattern (sp @ t) = (g, sp) # findall boxed_pattern t"
proof -
  from assms(1) obtain g ys where "matches boxed_pattern (no_captures, sp) = (g, []) # ys"
    by (cases "matches boxed_pattern (no_captures, sp)") (auto simp: well_formed_span_def)
  from span_step [OF this assms(2)] obtain ys'
    where m: "matches boxed_pattern (no_captures, sp @ t) = (g, t) # ys'" ..
  have "sp \<noteq> []"
    using well_formed_span_marker [OF assms(1)] by (auto simp: boxed_marker_def)
  with m have "findall boxed_pattern (sp @ t) = (g, sp) # findall boxed_pattern t"
    by (rule findall_match)
  then show ?thesis by blast
qed

lemma findall_filler_span:
  assumes "\<not> sublist boxed_marker f" and "well_formed_span sp" and "\<not> prefix [125] t"
  shows "\<exists>g. findall boxed_pattern (f @ sp @ t) = (g, sp) # findall boxed_pattern t"
proof -
  from well_formed_span_marker [OF assms(2)] obtain r where sp: "sp = boxed_marker @ r"
    by (auto simp: prefix_def)
  have "findall boxed_pattern (f @ sp @ t) = findall boxed_pattern (sp @ t)"
    unfolding sp using findall_boxed_skip [OF assms(1), of "r @ t"] by simp
  with findall_span [OF assms(2,3)] show ?thesis by simp
qed

lemma interleave_no_brace:
  assumes "\<forall>(f, sp) \<in> set pieces. \<not> prefix [125] f \<and> well_formed_span sp"
    and "\<not> prefix [125] t"
  shows "\<not> prefix [125] (interleave pieces @ t)"
proof (cases pieces)
  case Nil
  with assms(2) show ?thesis by (simp add: interleave_def)
next
  case (Cons x xs)
  obtain f sp where x: "x = (f, sp)" by (cases x)
  with assms(1) Cons have f: "\<not> prefix [125] f" and sp: "well_formed_span sp"
    by auto
  show ?thesis
  proof (cases f)
    case Nil
    with well_formed_span_no_brace [OF sp] Cons x show ?thesis
      by (simp add: interleave_def)
  next
    case (Cons c f')
    with f \<open>pieces = x # xs\<close> x show ?thesis
      by (simp add: interleave_def)
  qed
qed

lemma findall_interleave:
  assumes "\<forall>(f, sp) \<in> set pieces.
             \<not> sublist boxed_marker f \<and> \<not> prefix [125] f \<and> well_formed_span sp"
    and "\<not> prefix [125] t"
  shows "\<exists>ms. findall boxed_pattern (interleave pieces @ t) = ms @ findall boxed_pattern t"
  using assms(1)
proof (induction pieces)
  case Nil
  show ?case by (simp add: interleave_def)
next
  case (Cons x xs)
  obtain f sp where x: "x = (f, sp)" by (cases x)
  with Cons.prems have f: "\<not> sublist boxed_marker f" and sp: "well_formed_span sp"
    and rest: "\<forall>(f, sp) \<in> set xs.
             \<not> sublist boxed_marker f \<and> \<not> prefix [125] f \<and> well_formed_span sp"
    by auto
  from rest have "\<forall>(f, sp) \<in> set xs. \<not> prefix [125] f \<and> well_formed_span sp"
    by auto
  then have "\<not> prefix [125] (interleave xs @ t)"
    using assms(2) by (rule interleave_no_brace)
  from findall_filler_span [OF f sp this] obtain g where
    "findall boxed_pattern (f @ sp @ interleave xs @ t)
       = (g, sp) # findall boxed_pattern (interleave xs @ t)" ..
  moreover from Cons.IH [OF rest] obtain ms where
    "findall boxed_pattern (interleave xs @ t) = ms @ findall boxed_pattern t" ..
  ultimately have "findall boxed_pattern (interleave (x # xs) @ t)
      = ((g, sp) # ms) @ findall boxed_pattern t"
    using x by (simp add: interleave_def)
  then show ?case by blast
qed

lemma collect_option_append:
  "collect_option m acc = acc @ collect_option m []"
  by (cases m) (simp add: collect_option_def)

lemma fold_collect_option_append:
  "fold collect_option ms acc = acc @ fold collect_option ms []"
proof (induction ms arbitrary: acc)
  case Nil
  show ?case by simp
next
  case (Cons m ms)
  have "fold collect_option (m # ms) acc = fold collect_option ms (collect_option m acc)"
    by simp
  also have "\<dots> = collect_option m acc @ fold collect_option ms []"
    by (rule Cons.IH)
  also have "\<dots> = acc @ collect_option m [] @ fold collect_option ms []"
    using collect_option_append [of m acc] by simp
  also have "\<dots> = acc @ fold collect_option (m # ms) []"
    using Cons.IH [of "collect_option m []"] by simp
  finally show ?case .
qed

text \<open>
  Claim C4.  The answer extractor's result is decided by the last boxed span.  A text in
  which the boxed pattern finds no span gives None.  And for a final boxed span \<open>good\<close>
  from which the extractor returns the label \<open>l\<close>: a text built by putting any number of
  well-formed boxed spans before it, each span (and \<open>good\<close> itself) preceded by a filler
  text that holds no \<^verbatim>\<open>\boxed{\<close> and does not begin with a closing brace (the empty
  filler included), gives the same label \<open>l\<close>.  A span is well formed when the boxed
  pattern matches it from its first to its last character.
\<close>

theorem last_boxed_span_decides:
  "(findall boxed_pattern s = [] \<longrightarrow> extract_last_boxed_answer s = Inr None)
   \<and> ((\<forall>(f, sp) \<in> set pieces.
          \<not> sublist boxed_marker f \<and> \<not> prefix [125] f \<and> well_formed_span sp)
        \<and> \<not> sublist boxed_marker f' \<and> \<not> prefix [125] f'
        \<and> well_formed_span good \<and> extract_last_boxed_answer good = Inr (Some l)
      \<longrightarrow> extract_last_boxed_answer (interleave pieces @ f' @ good) = Inr (Some l))"
proof (intro conjI impI)
  assume "findall boxed_pattern s = []"
  then show "extract_last_boxed_answer s = Inr None"
    by (simp add: extract_last_boxed_answer_options)
next
  let ?groups = "\<lambda>m :: captures \<times> ustring.
     (group (fst m) 1, group (fst m) 2, group (fst m) 3, group (fst m) 4)"
  let ?options = "\<lambda>ms. fold collect_option (map ?groups ms) []"
  assume a: "(\<forall>(f, sp) \<in> set pieces.
          \<not> sublist boxed_marker f \<and> \<not> prefix [125] f \<and> well_formed_span sp)
        \<and> \<not> sublist boxed_marker f' \<and> \<not> prefix [125] f'
        \<and> well_formed_span good \<and> extract_last_boxed_answer good = Inr (Some l)"
  then have pieces: "\<forall>(f, sp) \<in> set pieces.
          \<not> sublist boxed_marker f \<and> \<not> prefix [125] f \<and> well_formed_span sp"
    and f': "\<not> sublist boxed_marker f'" "\<not> prefix [125] f'"
    and good: "well_formed_span good" "extract_last_boxed_answer good = Inr (Some l)"
    by simp_all
  have nb: "\<not> prefix [125] (f' @ good)"
    using f'(2) well_formed_span_no_brace [OF good(1), of "[]"] by (cases f') simp_all
  from well_formed_span_marker [OF good(1)] obtain r where r: "good = boxed_marker @ r"
    by (auto simp: prefix_def)
  have skip: "findall boxed_pattern (f' @ good) = findall boxed_pattern good"
    unfolding r by (rule findall_boxed_skip [OF f'(1)])
  from findall_interleave [OF pieces nb] skip obtain ms where
    ms: "findall boxed_pattern (interleave pieces @ f' @ good) = ms @ findall boxed_pattern good"
    by auto
  have opts: "?options (ms @ findall boxed_pattern good)
      = ?options ms @ ?options (findall boxed_pattern good)"
    using fold_collect_option_append [of "map ?groups (findall boxed_pattern good)" "?options ms"]
    by simp
  from good(2) have ne: "?options (findall boxed_pattern good) \<noteq> []"
    and lab: "choose_label (last (?options (findall boxed_pattern good))) = Some l"
    by (auto simp: extract_last_boxed_answer_options Let_def split: if_splits)
  show "extract_last_boxed_answer (interleave pieces @ f' @ good) = Inr (Some l)"
    unfolding extract_last_boxed_answer_options [of "interleave pieces @ f' @ good"] ms Let_def opts
    using ne lab by simp
qed

theorem last_boxed_span_decides_witness:
  "extract_last_boxed_answer (ustr ''no box'') = Inr None
   \<and> extract_last_boxed_answer
        (ustr ''so '' @ boxed_marker @ ustr ''B. x}''
         @ boxed_marker @ text_marker @ ustr ''C}}''
         @ [10] @ boxed_marker @ ustr ''A}'') = Inr (Some [65])"
proof -
  let ?pieces = "[(ustr ''so '', boxed_marker @ ustr ''B. x}''),
                  ([], boxed_marker @ text_marker @ ustr ''C}}'')]"
  have none: "findall boxed_pattern (ustr ''no box'') = []"
    by (simp add: regex_eval)
  have fillers: "\<not> sublist boxed_marker (ustr ''so '')" "\<not> sublist boxed_marker []"
    "\<not> sublist boxed_marker [10]"
    by (simp_all add: boxed_marker_def ustr_simps sublist_code(3))
  have braces: "\<not> prefix [125] (ustr ''so '')" "\<not> prefix [125] ([] :: ustring)"
    "\<not> prefix [125] ([10] :: ustring)"
    by (simp_all add: ustr_simps)
  have spans: "well_formed_span (boxed_marker @ ustr ''B. x}'')"
    "well_formed_span (boxed_marker @ text_marker @ ustr ''C}}'')"
    "well_formed_span (boxed_marker @ ustr ''A}'')"
    by (simp_all add: well_formed_span_def regex_eval boxed_marker_def text_marker_def)
  have good: "extract_last_boxed_answer (boxed_marker @ ustr ''A}'') = Inr (Some [65])"
    by (simp add: regex_eval boxed_marker_def)
  have "interleave ?pieces @ [10] @ boxed_marker @ ustr ''A}''
      = ustr ''so '' @ boxed_marker @ ustr ''B. x}''
         @ boxed_marker @ text_marker @ ustr ''C}}''
         @ [10] @ boxed_marker @ ustr ''A}''"
    by (simp add: interleave_def)
  then show ?thesis
    using last_boxed_span_decides [of "ustr ''no box''" ?pieces "[10]"
        "boxed_marker @ ustr ''A}''" "[65]"] none fillers braces spans good
    by simp
qed

text \<open>
  The final span has to be one from which a label comes.  A final span with an empty
  \<^verbatim>\<open>\text{}\<close> content adds no option: alone it gives None, and after another span the
  result is the label of that earlier span.
\<close>

lemma empty_final_span_defers:
  "extract_last_boxed_answer (boxed_marker @ text_marker @ ustr ''}}'') = Inr None
   \<and> extract_last_boxed_answer
        (boxed_marker @ ustr ''A}'' @ boxed_marker @ text_marker @ ustr ''}}'')
      = Inr (Some [65])"
  by (simp add: regex_eval boxed_marker_def text_marker_def)


section \<open>A last boxed span with wrapped content\<close>




end
